theory Spec2Isabelle
  imports Main "HOL-Library.Word" "HOL-Library.Sublist"
begin

section \<open>Python values, dictionaries and exceptions\<close>

text \<open>
  The script \<^verbatim>\<open>tts_bridge.py\<close> handles the chunks of the collaborator's stream as Python
  dictionaries: it reads \<^verbatim>\<open>chunk["type"]\<close> and \<^verbatim>\<open>chunk["data"]\<close>, and it stores
  word-boundary chunks whole. A dictionary is modelled as an association list in insertion
  order (the order \<^verbatim>\<open>json.dumps\<close> writes the keys in), a \<^verbatim>\<open>str\<close> as a \<open>string\<close>
  whose characters are the code points 0 to 255, an \<^verbatim>\<open>int\<close> as an unbounded \<open>int\<close>,
  and \<^verbatim>\<open>bytes\<close> as a list of 8-bit words. Floating-point values are not modelled.
\<close>

type_synonym byte = "8 word"

datatype pyval =
    PStr string
  | PInt int
  | PBytes "byte list"
  | PList "pyval list"
  | PDict "(string \<times> pyval) list"

type_synonym chunk = "(string \<times> pyval) list"

definition dquote :: char where "dquote = CHR 0x22"
definition squote :: char where "squote = CHR 0x27"
definition backslash :: char where "backslash = CHR 0x5C"
definition newline :: char where "newline = CHR 0x0A"

text \<open>The lower-case hexadecimal digits (\<^verbatim>\<open>Py_hexdigits\<close>).\<close>

definition hex_digit :: "nat \<Rightarrow> char" where
  "hex_digit n = (if n < 10 then char_of (48 + n) else char_of (87 + n))"

text \<open>
  \<^verbatim>\<open>repr\<close> of a \<^verbatim>\<open>str\<close>. The quote is the apostrophe, or the double quote when the
  string holds an apostrophe and no double quote. The quote and the backslash are escaped
  with a backslash; tab, line feed and carriage return are written \<^verbatim>\<open>\t\<close>, \<^verbatim>\<open>\n\<close>,
  \<^verbatim>\<open>\r\<close>; the other characters that are not printable are written \<^verbatim>\<open>\xhh\<close>: below
  the space, 127, and of the code points from 128 to 255 the controls 128 to 159, the
  no-break space 160 and the soft hyphen 173.
\<close>

definition repr_char :: "char \<Rightarrow> char \<Rightarrow> string" where
  "repr_char q c =
     (let n = (of_char c :: nat) in
      if c = q \<or> c = backslash then [backslash, c]
      else if c = CHR 0x09 then [backslash, CHR ''t'']
      else if c = CHR 0x0A then [backslash, CHR ''n'']
      else if c = CHR 0x0D then [backslash, CHR ''r'']
      else if n < 32 \<or> n = 127 then
        [backslash, CHR ''x'', hex_digit (n div 16), hex_digit (n mod 16)]
      else if n < 127 then [c]
      else if 160 < n \<and> n \<noteq> 173 then [c]
      else [backslash, CHR ''x'', hex_digit (n div 16), hex_digit (n mod 16)])"

definition py_repr :: "string \<Rightarrow> string" where
  "py_repr s =
     (let q = (if squote \<in> set s \<and> dquote \<notin> set s then dquote else squote)
      in q # concat (map (repr_char q) s) @ [q])"

text \<open>
  Exceptions, all of them subclasses of \<^verbatim>\<open>Exception\<close>. \<open>CollabError\<close> is a fault the
  collaborator raises (network failure, malformed response, service error); it carries the
  text that \<^verbatim>\<open>str(e)\<close> gives. Signals that are not subclasses of \<^verbatim>\<open>Exception\<close>
  (keyboard interrupt, task cancellation) are outside the model.
\<close>

datatype exn =
    KeyError string
  | TypeError string
  | ValueError string
  | RecursionError string
  | CollabError string

text \<open>\<^verbatim>\<open>str(e)\<close>: a \<^verbatim>\<open>KeyError\<close> shows the \<^verbatim>\<open>repr\<close> of the missing key, the
  others their message.\<close>

fun str_exn :: "exn \<Rightarrow> string" where
  "str_exn (KeyError k) = py_repr k"
| "str_exn (TypeError m) = m"
| "str_exn (ValueError m) = m"
| "str_exn (RecursionError m) = m"
| "str_exn (CollabError m) = m"

text \<open>\<^verbatim>\<open>d[k]\<close> raises \<^verbatim>\<open>KeyError\<close> on a missing key.\<close>

definition getitem :: "chunk \<Rightarrow> string \<Rightarrow> exn + pyval" where
  "getitem d k = (case map_of d k of None \<Rightarrow> Inl (KeyError k) | Some v \<Rightarrow> Inr v)"

section \<open>\<^verbatim>\<open>bytearray.extend\<close>\<close>

text \<open>
  \<^verbatim>\<open>bytearray.extend(x)\<close> appends a bytes-like object as it is; any other iterable must
  yield integers in \<open>0..255\<close>; a value that cannot be iterated, or an item that is not
  such an integer, raises and leaves the buffer as it was. Iterating a \<^verbatim>\<open>str\<close> yields
  one-character strings and iterating a \<^verbatim>\<open>dict\<close> yields its keys, so only the empty
  ones are accepted (and append nothing).
\<close>

definition not_an_integer :: "string \<Rightarrow> exn" where
  "not_an_integer tn =
     TypeError (squote # tn @ squote # '' object cannot be interpreted as an integer'')"

fun getbytevalue :: "pyval \<Rightarrow> exn + byte" where
  "getbytevalue (PInt i) =
     (if 0 \<le> i \<and> i < 256 then Inr (word_of_int i)
      else Inl (ValueError ''byte must be in range(0, 256)''))"
| "getbytevalue (PStr s) = Inl (not_an_integer ''str'')"
| "getbytevalue (PBytes b) = Inl (not_an_integer ''bytes'')"
| "getbytevalue (PList l) = Inl (not_an_integer ''list'')"
| "getbytevalue (PDict d) = Inl (not_an_integer ''dict'')"

fun getbytevalues :: "pyval list \<Rightarrow> exn + byte list" where
  "getbytevalues [] = Inr []"
| "getbytevalues (x # xs) =
     (case getbytevalue x of
        Inl e \<Rightarrow> Inl e
      | Inr b \<Rightarrow> (case getbytevalues xs of Inl e \<Rightarrow> Inl e | Inr bs \<Rightarrow> Inr (b # bs)))"

text \<open>The bytes that \<^verbatim>\<open>extend\<close> would append for a value, or the exception it raises.\<close>

fun payload :: "pyval \<Rightarrow> exn + byte list" where
  "payload (PBytes bs) = Inr bs"
| "payload (PList xs) = getbytevalues xs"
| "payload (PStr s) = getbytevalues (map (\<lambda>c. PStr [c]) s)"
| "payload (PDict d) = getbytevalues (map (\<lambda>kv. PStr (fst kv)) d)"
| "payload (PInt i) = Inl (TypeError (''can'' @ squote # ''t extend bytearray with int''))"

definition bytearray_extend :: "byte list \<Rightarrow> pyval \<Rightarrow> exn + byte list" where
  "bytearray_extend buf x = (case payload x of Inl e \<Rightarrow> Inl e | Inr bs \<Rightarrow> Inr (buf @ bs))"

section \<open>The drain loop of \<^verbatim>\<open>main\<close>\<close>

text \<open>The two accumulators: \<^verbatim>\<open>audio_data = bytearray()\<close> and \<^verbatim>\<open>boundaries = []\<close>.\<close>

record accs =
  audio_data :: "byte list"
  boundaries :: "chunk list"

definition init_accs :: accs where
  "init_accs = \<lparr>audio_data = [], boundaries = []\<rparr>"

text \<open>
  The body of the \<^verbatim>\<open>async for\<close> loop (lines 31 to 36). \<^verbatim>\<open>chunk["type"]\<close> is read
  again by the \<^verbatim>\<open>elif\<close>; the dictionary has not changed in between, so the model reads
  it once.
\<close>

definition loop_body :: "accs \<Rightarrow> chunk \<Rightarrow> exn + accs" where
  "loop_body st chunk =
     (case getitem chunk ''type'' of
        Inl e \<Rightarrow> Inl e
      | Inr t \<Rightarrow>
          if t = PStr ''audio'' then
            (case getitem chunk ''data'' of
               Inl e \<Rightarrow> Inl e
             | Inr d \<Rightarrow>
                 (case bytearray_extend (audio_data st) d of
                    Inl e \<Rightarrow> Inl e
                  | Inr a \<Rightarrow> Inr (st\<lparr>audio_data := a\<rparr>)))
          else if t = PStr ''WordBoundary'' then
            Inr (st\<lparr>boundaries := boundaries st @ [chunk]\<rparr>)
          else Inr st)"

text \<open>
  The collaborator's stream is an asynchronous generator: each pull yields a chunk, raises,
  or ends the stream (the end of the list). Nothing is pulled after a raise. The list is
  finite: a stream that neither ends nor raises keeps the script waiting, and no claim is
  about such a run.
\<close>

datatype pull = Yield chunk | Raise exn

fun drain :: "accs \<Rightarrow> pull list \<Rightarrow> exn + accs" where
  "drain st [] = Inr st"
| "drain st (Raise e # ps) = Inl e"
| "drain st (Yield c # ps) =
     (case loop_body st c of Inl e \<Rightarrow> Inl e | Inr st' \<Rightarrow> drain st' ps)"

section \<open>\<^verbatim>\<open>base64.b64encode\<close>\<close>

text \<open>
  The standard alphabet of RFC 4648: \<open>A..Z\<close>, \<open>a..z\<close>, \<open>0..9\<close>, \<open>+\<close>, \<open>/\<close>, with
  \<open>=\<close> padding. The 24 bits of three bytes are written as four 6-bit digits, the first
  digit holding the six high bits of the first byte.
\<close>

definition b64_char :: "nat \<Rightarrow> char" where
  "b64_char i =
     (if i < 26 then char_of (65 + i)
      else if i < 52 then char_of (71 + i)
      else if i < 62 then char_of (i - 4)
      else if i = 62 then CHR ''+''
      else CHR ''/'')"

fun b64encode :: "byte list \<Rightarrow> string" where
  "b64encode [] = []"
| "b64encode [a] =
     (let x = unat a
      in [b64_char (x div 4), b64_char (x mod 4 * 16), CHR ''='', CHR ''=''])"
| "b64encode [a, b] =
     (let x = unat a; y = unat b
      in [b64_char (x div 4), b64_char (x mod 4 * 16 + y div 16),
          b64_char (y mod 16 * 4), CHR ''=''])"
| "b64encode (a # b # c # rest) =
     (let x = unat a; y = unat b; z = unat c
      in [b64_char (x div 4), b64_char (x mod 4 * 16 + y div 16),
          b64_char (y mod 16 * 4 + z div 64), b64_char (z mod 64)]) @ b64encode rest"

text \<open>
  The reference decoder that the specification's "once base64-decoded" is read with: strict
  RFC 4648 decoding of groups of four characters, padding allowed in the last group only.
\<close>

definition b64_index :: "char \<Rightarrow> nat option" where
  "b64_index c =
     (let n = (of_char c :: nat) in
      if 65 \<le> n \<and> n \<le> 90 then Some (n - 65)
      else if 97 \<le> n \<and> n \<le> 122 then Some (n - 71)
      else if 48 \<le> n \<and> n \<le> 57 then Some (n + 4)
      else if c = CHR ''+'' then Some 62
      else if c = CHR ''/'' then Some 63
      else None)"

fun b64decode :: "string \<Rightarrow> byte list option" where
  "b64decode [] = Some []"
| "b64decode (w # x # y # z # rest) =
     (if y = CHR ''='' \<and> z = CHR ''='' \<and> rest = [] then
        (case (b64_index w, b64_index x) of
           (Some i, Some j) \<Rightarrow> Some [of_nat (i * 4 + j div 16)]
         | _ \<Rightarrow> None)
      else if z = CHR ''='' \<and> rest = [] then
        (case (b64_index w, b64_index x, b64_index y) of
           (Some i, Some j, Some k) \<Rightarrow>
             Some [of_nat (i * 4 + j div 16), of_nat (j mod 16 * 16 + k div 4)]
         | _ \<Rightarrow> None)
      else
        (case (b64_index w, b64_index x, b64_index y, b64_index z) of
           (Some i, Some j, Some k, Some l) \<Rightarrow>
             (case b64decode rest of
                None \<Rightarrow> None
              | Some bs \<Rightarrow>
                  Some (of_nat (i * 4 + j div 16) # of_nat (j mod 16 * 16 + k div 4)
                          # of_nat (k mod 4 * 64 + l) # bs))
         | _ \<Rightarrow> None))"
| "b64decode _ = None"

section \<open>\<^verbatim>\<open>json.dumps\<close>\<close>

text \<open>
  \<^verbatim>\<open>json.dumps\<close> with its defaults: \<^verbatim>\<open>ensure_ascii=True\<close> and the separators
  \<^verbatim>\<open>", "\<close> and \<^verbatim>\<open>": "\<close>. A character outside the printable ASCII range, a double
  quote and a backslash are escaped; hexadecimal digits are lower case.
\<close>

definition escape_char :: "char \<Rightarrow> string" where
  "escape_char c =
     (let n = (of_char c :: nat) in
      if c = dquote then [backslash, dquote]
      else if c = backslash then [backslash, backslash]
      else if c = CHR 0x0A then [backslash, CHR ''n'']
      else if c = CHR 0x0D then [backslash, CHR ''r'']
      else if c = CHR 0x09 then [backslash, CHR ''t'']
      else if c = CHR 0x08 then [backslash, CHR ''b'']
      else if c = CHR 0x0C then [backslash, CHR ''f'']
      else if 32 \<le> n \<and> n \<le> 126 then [c]
      else [backslash, CHR ''u'', CHR ''0'', CHR ''0'', hex_digit (n div 16), hex_digit (n mod 16)])"

definition encode_basestring_ascii :: "string \<Rightarrow> string" where
  "encode_basestring_ascii s = dquote # concat (map escape_char s) @ [dquote]"

fun show_nat :: "nat \<Rightarrow> string" where
  "show_nat n =
     (if n < 10 then [char_of (48 + n)] else show_nat (n div 10) @ [char_of (48 + n mod 10)])"

declare show_nat.simps [simp del]

definition show_int :: "int \<Rightarrow> string" where
  "show_int i = (if i < 0 then CHR ''-'' # show_nat (nat (- i)) else show_nat (nat i))"

fun join :: "string \<Rightarrow> string list \<Rightarrow> string" where
  "join sep [] = []"
| "join sep [x] = x"
| "join sep (x # y # ys) = x @ sep @ join sep (y # ys)"

text \<open>
  The text \<^verbatim>\<open>json.dumps\<close> returns for a value it accepts (the \<^verbatim>\<open>bytes\<close> case is never
  reached from \<open>json_dumps\<close>, which raises for it).
\<close>

fun encode :: "pyval \<Rightarrow> string" where
  "encode (PStr s) = encode_basestring_ascii s"
| "encode (PInt i) = show_int i"
| "encode (PBytes b) = []"
| "encode (PList xs) = ''['' @ join '', '' (map encode xs) @ '']''"
| "encode (PDict kvs) =
     ''{'' @ join '', '' (map (\<lambda>kv. encode_basestring_ascii (fst kv) @ '': '' @ encode (snd kv)) kvs)
       @ ''}''"

text \<open>
  What \<^verbatim>\<open>json.dumps\<close> raises. The encoder walks the value depth first, the members of a
  list or dictionary in their order, and raises at the first of:
  \<^item> a \<^verbatim>\<open>bytes\<close> value, which has no JSON form (\<^verbatim>\<open>TypeError\<close>);
  \<^item> an \<^verbatim>\<open>int\<close> with more decimal digits than \<^verbatim>\<open>sys.int_max_str_digits\<close> allows
    (\<^verbatim>\<open>ValueError\<close>; the limit \<open>L\<close> is 4300 by default, and 0 switches it off); a
    number has more than \<open>L\<close> digits when its absolute value is at least \<open>10 ^ L\<close>;
  \<^item> a list or dictionary entered when the interpreter's recursion limit is reached
    (\<^verbatim>\<open>RecursionError\<close>); \<open>d\<close> is the number of nested lists and dictionaries that
    can still be entered.
\<close>

definition exceeds_digits :: "nat \<Rightarrow> int \<Rightarrow> bool" where
  "exceeds_digits L i = (L \<noteq> 0 \<and> 10 ^ L \<le> \<bar>i\<bar>)"

definition digits_error :: "nat \<Rightarrow> exn" where
  "digits_error L =
     ValueError (''Exceeds the limit ('' @ show_nat L @
       '' digits) for integer string conversion; use sys.set_int_max_str_digits() to increase the limit'')"

definition bytes_error :: exn where
  "bytes_error = TypeError ''Object of type bytes is not JSON serializable''"

definition depth_error :: exn where
  "depth_error = RecursionError ''maximum recursion depth exceeded while encoding a JSON object''"

fun first_some :: "'a option list \<Rightarrow> 'a option" where
  "first_some [] = None"
| "first_some (None # xs) = first_some xs"
| "first_some (Some x # xs) = Some x"

fun first_error :: "nat \<Rightarrow> nat \<Rightarrow> pyval \<Rightarrow> exn option" where
  "first_error L d (PStr s) = None"
| "first_error L d (PInt i) = (if exceeds_digits L i then Some (digits_error L) else None)"
| "first_error L d (PBytes b) = Some bytes_error"
| "first_error L d (PList xs) =
     (if d = 0 then Some depth_error else first_some (map (first_error L (d - 1)) xs))"
| "first_error L d (PDict kvs) =
     (if d = 0 then Some depth_error
      else first_some (map (\<lambda>kv. first_error L (d - 1) (snd kv)) kvs))"

definition json_dumps :: "nat \<Rightarrow> nat \<Rightarrow> pyval \<Rightarrow> exn + string" where
  "json_dumps L d v = (case first_error L d v of Some e \<Rightarrow> Inl e | None \<Rightarrow> Inr (encode v))"

section \<open>The script\<close>

text \<open>
  The command line, after \<^verbatim>\<open>argparse\<close> has split it: the value given for each flag
  (\<open>None\<close> when the flag is absent). \<^verbatim>\<open>--text\<close> is required; the other three flags
  have defaults. A missing required flag makes \<^verbatim>\<open>parse_args\<close> print the usage and the
  message to standard error and exit with status 2. The command lines that \<^verbatim>\<open>argparse\<close>
  answers or rejects while it splits them are not inputs of the model: a request for help
  (\<^verbatim>\<open>-h\<close>, \<^verbatim>\<open>--help\<close>: the help text on standard output, status 0), an unknown
  argument, a flag without its value.
\<close>

record namespace =
  ns_text :: string
  ns_voice :: string
  ns_rate :: string
  ns_pitch :: string

definition get_default :: "(string \<rightharpoonup> string) \<Rightarrow> string \<Rightarrow> string \<Rightarrow> string" where
  "get_default supplied flag dflt = (case supplied flag of None \<Rightarrow> dflt | Some v \<Rightarrow> v)"

definition parse_args :: "(string \<rightharpoonup> string) \<Rightarrow> string + namespace" where
  "parse_args supplied =
     (case supplied ''--text'' of
        None \<Rightarrow> Inl ''the following arguments are required: --text''
      | Some t \<Rightarrow>
          Inr \<lparr>ns_text = t,
               ns_voice = get_default supplied ''--voice'' ''en-US-GuyNeural'',
               ns_rate = get_default supplied ''--rate'' ''+0%'',
               ns_pitch = get_default supplied ''--pitch'' ''+0Hz''\<rparr>)"

text \<open>The keyword arguments of \<^verbatim>\<open>edge_tts.Communicate(...)\<close> (lines 18 to 24).\<close>

record kwargs =
  kw_text :: string
  kw_voice :: string
  kw_rate :: string
  kw_pitch :: string
  kw_boundary :: string

definition communicate_kwargs :: "namespace \<Rightarrow> kwargs" where
  "communicate_kwargs args =
     \<lparr>kw_text = ns_text args, kw_voice = ns_voice args, kw_rate = ns_rate args,
      kw_pitch = ns_pitch args, kw_boundary = ''WordBoundary''\<rparr>"

text \<open>
  What the process leaves behind: the texts written to the two streams and the exit code.
  What the interpreter and \<^verbatim>\<open>argparse\<close> contribute is a parameter of the model: the
  program name and the usage text, the traceback of an uncaught exception, the limit
  \<^verbatim>\<open>sys.int_max_str_digits\<close>, and the room the recursion limit leaves to
  \<^verbatim>\<open>json.dumps\<close>. The script calls \<^verbatim>\<open>json.dumps\<close> a few frames above the bottom of
  the stack, so the two containers of the result document itself (the dictionary and the
  list of boundaries) can always be entered; \<open>nesting_room\<close> is the number of nested
  containers that can be entered below them, the dictionary of a chunk being the first.
\<close>

record outcome =
  stdout :: string
  stderr :: string
  exit_code :: int

record env =
  prog :: string
  usage :: string
  traceback :: "exn \<Rightarrow> string"
  int_max_str_digits :: nat
  nesting_room :: nat

definition argparse_error :: "env \<Rightarrow> string \<Rightarrow> outcome" where
  "argparse_error ev msg =
     \<lparr>stdout = [], stderr = usage ev @ prog ev @ '': error: '' @ msg @ [newline],
      exit_code = 2\<rparr>"

definition uncaught :: "env \<Rightarrow> exn \<Rightarrow> outcome" where
  "uncaught ev e =
     \<lparr>stdout = [],
      stderr = ''Traceback (most recent call last):'' @ [newline] @ traceback ev e,
      exit_code = 1\<rparr>"

text \<open>The result document (lines 39 to 42).\<close>

definition result :: "accs \<Rightarrow> pyval" where
  "result st =
     PDict [(''audio'', PStr (b64encode (audio_data st))),
            (''boundaries'', PList (map PDict (boundaries st)))]"

text \<open>The \<^verbatim>\<open>try\<close> block (lines 29 to 45): drain the stream, then serialize the result.\<close>

definition try_block :: "env \<Rightarrow> pull list \<Rightarrow> exn + string" where
  "try_block ev ps =
     (case drain init_accs ps of
        Inl e \<Rightarrow> Inl e
      | Inr st \<Rightarrow> json_dumps (int_max_str_digits ev) (2 + nesting_room ev) (result st))"

text \<open>The \<^verbatim>\<open>try\<close> statement with its handler (lines 29 to 50).\<close>

definition guarded :: "env \<Rightarrow> pull list \<Rightarrow> outcome" where
  "guarded ev ps =
     (case try_block ev ps of
        Inl e \<Rightarrow> \<lparr>stdout = [], stderr = ''Error: '' @ str_exn e @ [newline], exit_code = 1\<rparr>
      | Inr doc \<Rightarrow> \<lparr>stdout = doc @ [newline], stderr = [], exit_code = 0\<rparr>)"

text \<open>
  \<^verbatim>\<open>main\<close>. The collaborator is a parameter: \<open>Communicate kw\<close> is what constructing
  \<^verbatim>\<open>edge_tts.Communicate\<close> with the keyword arguments \<open>kw\<close> does, either raising (outside
  the \<^verbatim>\<open>try\<close>, so uncaught) or giving the pulls that \<^verbatim>\<open>communicate.stream()\<close> will
  answer.
\<close>

definition after_construct :: "env \<Rightarrow> exn + pull list \<Rightarrow> outcome" where
  "after_construct ev r = (case r of Inl e \<Rightarrow> uncaught ev e | Inr ps \<Rightarrow> guarded ev ps)"

definition main :: "env \<Rightarrow> (string \<rightharpoonup> string) \<Rightarrow> (kwargs \<Rightarrow> exn + pull list) \<Rightarrow> outcome" where
  "main ev supplied Communicate =
     (case parse_args supplied of
        Inl msg \<Rightarrow> argparse_error ev msg
      | Inr args \<Rightarrow> after_construct ev (Communicate (communicate_kwargs args)))"

section \<open>A reference reader for JSON\<close>

text \<open>
  "Valid JSON" is read as: a JSON reader accepts the text. The reader below follows the
  grammar of RFC 8259 for the part of JSON that the script can emit: strings (with every
  escape; \<^verbatim>\<open>\u\<close> escapes up to code point 255, the range of \<open>char\<close>), integers
  without leading zeros, arrays and objects, with optional white space between the tokens.
  It rejects everything else (also fractions, exponents and the literals, which are JSON but
  never written here), so a text it accepts is JSON. It returns the value as \<^verbatim>\<open>json.loads\<close>
  would, an object as the list of its members in the order of the text. The first argument
  of \<open>parse_value\<close> bounds the nesting and the number of members read; \<open>json_loads\<close>
  starts it at the length of the text.
\<close>

definition is_ws :: "char \<Rightarrow> bool" where
  "is_ws c = (c = CHR '' '' \<or> c = CHR 0x09 \<or> c = CHR 0x0A \<or> c = CHR 0x0D)"

definition skip_ws :: "string \<Rightarrow> string" where
  "skip_ws s = dropWhile is_ws s"

definition is_digit :: "char \<Rightarrow> bool" where
  "is_digit c = (48 \<le> (of_char c :: nat) \<and> (of_char c :: nat) \<le> 57)"

definition digit_val :: "char \<Rightarrow> nat" where
  "digit_val c = of_char c - 48"

definition hex_val :: "char \<Rightarrow> nat option" where
  "hex_val c =
     (let n = (of_char c :: nat) in
      if 48 \<le> n \<and> n \<le> 57 then Some (n - 48)
      else if 97 \<le> n \<and> n \<le> 102 then Some (n - 87)
      else if 65 \<le> n \<and> n \<le> 70 then Some (n - 55)
      else None)"

definition unescape :: "char \<Rightarrow> char option" where
  "unescape e =
     (if e = dquote then Some dquote
      else if e = backslash then Some backslash
      else if e = CHR ''/'' then Some (CHR ''/'')
      else if e = CHR ''b'' then Some (CHR 0x08)
      else if e = CHR ''f'' then Some (CHR 0x0C)
      else if e = CHR ''n'' then Some (CHR 0x0A)
      else if e = CHR ''r'' then Some (CHR 0x0D)
      else if e = CHR ''t'' then Some (CHR 0x09)
      else None)"

definition cons_fst :: "'a \<Rightarrow> ('a list \<times> 'b) option \<Rightarrow> ('a list \<times> 'b) option" where
  "cons_fst x r = (case r of None \<Rightarrow> None | Some (xs, t) \<Rightarrow> Some (x # xs, t))"

fun parse_chars :: "string \<Rightarrow> (string \<times> string) option" where
  "parse_chars [] = None"
| "parse_chars (c # cs) =
     (if c = dquote then Some ([], cs)
      else if c = backslash then
        (case cs of
           [] \<Rightarrow> None
         | e # r \<Rightarrow>
             if e = CHR ''u'' then
               (case r of
                  h1 # h2 # h3 # h4 # r' \<Rightarrow>
                    (case (hex_val h1, hex_val h2, hex_val h3, hex_val h4) of
                       (Some a, Some b, Some x, Some y) \<Rightarrow>
                         if a = 0 \<and> b = 0 then cons_fst (char_of (x * 16 + y)) (parse_chars r')
                         else None
                     | _ \<Rightarrow> None)
                | _ \<Rightarrow> None)
             else
               (case unescape e of
                  None \<Rightarrow> None
                | Some ch \<Rightarrow> cons_fst ch (parse_chars r)))
      else if (of_char c :: nat) < 32 then None
      else cons_fst c (parse_chars cs))"

definition digits_val :: "string \<Rightarrow> nat" where
  "digits_val ds = foldl (\<lambda>n c. 10 * n + digit_val c) 0 ds"

definition parse_nat :: "string \<Rightarrow> (nat \<times> string) option" where
  "parse_nat s =
     (let ds = takeWhile is_digit s; rest = dropWhile is_digit s in
      if ds = [] then None
      else if hd ds = CHR ''0'' \<and> 1 < length ds then None
      else if rest \<noteq> [] \<and> hd rest \<in> {CHR ''.'', CHR ''e'', CHR ''E''} then None
      else Some (digits_val ds, rest))"

definition parse_number :: "string \<Rightarrow> (int \<times> string) option" where
  "parse_number s =
     (case s of
        [] \<Rightarrow> None
      | c # cs \<Rightarrow>
          if c = CHR ''-'' then
            (case parse_nat cs of None \<Rightarrow> None | Some (n, r) \<Rightarrow> Some (- int n, r))
          else
            (case parse_nat s of None \<Rightarrow> None | Some (n, r) \<Rightarrow> Some (int n, r)))"

fun parse_value :: "nat \<Rightarrow> string \<Rightarrow> (pyval \<times> string) option"
  and parse_elements :: "nat \<Rightarrow> string \<Rightarrow> (pyval list \<times> string) option"
  and parse_members :: "nat \<Rightarrow> string \<Rightarrow> ((string \<times> pyval) list \<times> string) option"
where
  "parse_value 0 s = None"
| "parse_value (Suc n) s =
     (case s of
        [] \<Rightarrow> None
      | c # cs \<Rightarrow>
          if c = dquote then
            (case parse_chars cs of None \<Rightarrow> None | Some (str, r) \<Rightarrow> Some (PStr str, r))
          else if c = CHR ''['' then
            (case skip_ws cs of
               [] \<Rightarrow> None
             | d # ds \<Rightarrow>
                 if d = CHR '']'' then Some (PList [], ds)
                 else (case parse_elements n (d # ds) of
                         None \<Rightarrow> None
                       | Some (xs, r) \<Rightarrow> Some (PList xs, r)))
          else if c = CHR ''{'' then
            (case skip_ws cs of
               [] \<Rightarrow> None
             | d # ds \<Rightarrow>
                 if d = CHR ''}'' then Some (PDict [], ds)
                 else (case parse_members n (d # ds) of
                         None \<Rightarrow> None
                       | Some (kvs, r) \<Rightarrow> Some (PDict kvs, r)))
          else
            (case parse_number s of None \<Rightarrow> None | Some (i, r) \<Rightarrow> Some (PInt i, r)))"
| "parse_elements 0 s = None"
| "parse_elements (Suc n) s =
     (case parse_value n s of
        None \<Rightarrow> None
      | Some (v, r) \<Rightarrow>
          (case skip_ws r of
             [] \<Rightarrow> None
           | d # ds \<Rightarrow>
               if d = CHR '','' then cons_fst v (parse_elements n (skip_ws ds))
               else if d = CHR '']'' then Some ([v], ds)
               else None))"
| "parse_members 0 s = None"
| "parse_members (Suc n) s =
     (case s of
        [] \<Rightarrow> None
      | c # cs \<Rightarrow>
          if c \<noteq> dquote then None
          else
            (case parse_chars cs of
               None \<Rightarrow> None
             | Some (k, r) \<Rightarrow>
                 (case skip_ws r of
                    [] \<Rightarrow> None
                  | d # ds \<Rightarrow>
                      if d \<noteq> CHR '':'' then None
                      else
                        (case parse_value n (skip_ws ds) of
                           None \<Rightarrow> None
                         | Some (v, r') \<Rightarrow>
                             (case skip_ws r' of
                                [] \<Rightarrow> None
                              | e # es \<Rightarrow>
                                  if e = CHR '','' then
                                    cons_fst (k, v) (parse_members n (skip_ws es))
                                  else if e = CHR ''}'' then Some ([(k, v)], es)
                                  else None)))))"

definition json_loads :: "string \<Rightarrow> pyval option" where
  "json_loads s =
     (case parse_value (length s) (skip_ws s) of
        None \<Rightarrow> None
      | Some (v, r) \<Rightarrow> if skip_ws r = [] then Some v else None)"

section \<open>Auxiliary notions of the proofs\<close>

text \<open>A value with no \<^verbatim>\<open>bytes\<close> in it: the values that have a JSON text.\<close>

fun bytes_free :: "pyval \<Rightarrow> bool" where
  "bytes_free (PStr s) = True"
| "bytes_free (PInt i) = True"
| "bytes_free (PBytes b) = False"
| "bytes_free (PList xs) = list_all bytes_free xs"
| "bytes_free (PDict kvs) = list_all (\<lambda>kv. bytes_free (snd kv)) kvs"

text \<open>
  What may follow a value in a JSON text (nothing, a comma or a closing bracket), what a
  value's text starts with (a character that is neither white space nor a closing bracket),
  the text of one member of an object, and the statement that the reader reads a value's
  text back whatever follows it.
\<close>

definition ends_number :: "string \<Rightarrow> bool" where
  "ends_number rest = (rest = [] \<or> hd rest \<in> {CHR '','', CHR '']'', CHR ''}''})"

definition starts_token :: "string \<Rightarrow> bool" where
  "starts_token s = (s \<noteq> [] \<and> \<not> is_ws (hd s) \<and> hd s \<noteq> CHR '']'' \<and> hd s \<noteq> CHR ''}'')"

definition reads_back :: "pyval \<Rightarrow> bool" where
  "reads_back v =
     (\<forall>n rest. ends_number rest \<longrightarrow> length (encode v) \<le> n \<longrightarrow>
        parse_value n (encode v @ rest) = Some (v, rest))"

definition encode_member :: "string \<times> pyval \<Rightarrow> string" where
  "encode_member kv = encode_basestring_ascii (fst kv) @ '': '' @ encode (snd kv)"

text \<open>
  The characters \<^verbatim>\<open>json.dumps\<close> writes are printable ASCII; a text is one line when it
  ends with its only line feed.
\<close>

definition printable :: "char \<Rightarrow> bool" where
  "printable c = (32 \<le> (of_char c :: nat) \<and> (of_char c :: nat) \<le> 126)"

definition one_line :: "string \<Rightarrow> bool" where
  "one_line s = (s \<noteq> [] \<and> last s = newline \<and> newline \<notin> set (butlast s))"

section \<open>What the stream produced\<close>

text \<open>
  The notions the claims are stated with: the chunks a stream yields before it ends or
  raises, those of kind audio and of kind word boundary, and the concatenated payloads of
  the audio chunks.
\<close>

fun chunks_of :: "pull list \<Rightarrow> chunk list" where
  "chunks_of [] = []"
| "chunks_of (Raise e # ps) = []"
| "chunks_of (Yield c # ps) = c # chunks_of ps"

definition kind :: "chunk \<Rightarrow> pyval option" where
  "kind c = map_of c ''type''"

definition audio_chunks :: "pull list \<Rightarrow> chunk list" where
  "audio_chunks ps = filter (\<lambda>c. kind c = Some (PStr ''audio'')) (chunks_of ps)"

definition boundary_chunks :: "pull list \<Rightarrow> chunk list" where
  "boundary_chunks ps = filter (\<lambda>c. kind c = Some (PStr ''WordBoundary'')) (chunks_of ps)"

definition payload_of :: "chunk \<Rightarrow> byte list" where
  "payload_of c =
     (case map_of c ''data'' of
        None \<Rightarrow> []
      | Some d \<Rightarrow> (case payload d of Inl e \<Rightarrow> [] | Inr bs \<Rightarrow> bs))"

definition audio_payloads :: "pull list \<Rightarrow> byte list" where
  "audio_payloads ps = concat (map payload_of (audio_chunks ps))"

section \<open>Example inputs\<close>

definition ev0 :: env where
  "ev0 = \<lparr>prog = ''tts_bridge.py'',
          usage = ''usage: tts_bridge.py [-h] --text TEXT'' @ [newline],
          traceback = (\<lambda>e. str_exn e @ [newline]),
          int_max_str_digits = 4300,
          nesting_room = 900\<rparr>"

definition audio_chunk :: chunk where
  "audio_chunk = [(''type'', PStr ''audio''), (''data'', PBytes [1, 2])]"

definition word_chunk :: chunk where
  "word_chunk =
     [(''type'', PStr ''WordBoundary''), (''offset'', PInt 0), (''duration'', PInt 500000),
      (''text'', PStr ''Hi'')]"

definition sentence_chunk :: chunk where
  "sentence_chunk =
     [(''type'', PStr ''SentenceBoundary''), (''offset'', PInt 0), (''duration'', PInt 500000),
      (''text'', PStr ''Hi'')]"

definition partial_stream :: "pull list" where
  "partial_stream =
     [Yield audio_chunk, Yield word_chunk, Raise (CollabError ''No audio was received'')]"

definition invalid_rate :: "kwargs \<Rightarrow> exn + pull list" where
  "invalid_rate kw = Inl (ValueError ''Invalid rate'')"

definition hi_args :: "string \<rightharpoonup> string" where
  "hi_args = [''--text'' \<mapsto> ''Hi'']"

definition example_stream :: "pull list" where
  "example_stream = [Yield audio_chunk, Yield word_chunk]"

text \<open>A word-boundary chunk whose offset has 4301 digits.\<close>

definition huge :: int where
  "huge = 10 ^ 4300"

definition long_chunk :: chunk where
  "long_chunk =
     [(''type'', PStr ''WordBoundary''), (''offset'', PInt huge), (''duration'', PInt 500000),
      (''text'', PStr ''Hi'')]"

section \<open>Base64: decoding undoes encoding\<close>

text \<open>The digits, as the tables of the library list them.\<close>

lemma b64_char_table:
  "map b64_char [0..<64] = ''ABCDEFGHIJKLMNOPQRSTUVWXYZabcdefghijklmnopqrstuvwxyz0123456789+/''"
  by code_simp

lemma hex_digit_table: "map hex_digit [0..<16] = ''0123456789abcdef''"
  by code_simp

lemma b64_index_char: "i < 64 \<Longrightarrow> b64_index (b64_char i) = Some i"
  by (auto simp: b64_index_def b64_char_def Let_def)

lemma b64_index_pad: "b64_index (CHR ''='') = None"
  by (simp add: b64_index_def)

lemma b64_char_not_pad: "i < 64 \<Longrightarrow> b64_char i \<noteq> CHR ''=''"
  using b64_index_char [of i] b64_index_pad by auto

lemma sextets:
  fixes x y z :: nat
  assumes "x < 256" "y < 256" "z < 256"
  shows "x div 4 < 64" "x mod 4 * 16 + y div 16 < 64" "y mod 16 * 4 + z div 64 < 64" "z mod 64 < 64"
    "x mod 4 * 16 < 64" "y mod 16 * 4 < 64"
  using assms by auto

lemma octets:
  fixes x y z :: nat
  assumes "x < 256" "y < 256" "z < 256"
  shows "x div 4 * 4 + (x mod 4 * 16 + y div 16) div 16 = x"
    "(x mod 4 * 16 + y div 16) mod 16 * 16 + (y mod 16 * 4 + z div 64) div 4 = y"
    "(y mod 16 * 4 + z div 64) mod 4 * 64 + z mod 64 = z"
    "x div 4 * 4 + (x mod 4 * 16) div 16 = x"
    "(x mod 4 * 16 + y div 16) mod 16 * 16 + (y mod 16 * 4) div 4 = y"
  using assms by auto


lemma unat_byte: "unat (a :: byte) < 256"
  using unsigned_less [of a, where 'a = nat] by simp

lemma b64decode_b64encode: "b64decode (b64encode bs) = Some bs"
proof (induction bs rule: b64encode.induct)
  case 1
  show ?case by simp
next
  case (2 a)
  show ?case
    using unat_byte [of a]
    by (simp add: Let_def b64_index_char sextets octets b64_char_not_pad)
next
  case (3 a b)
  show ?case
    using unat_byte [of a] unat_byte [of b]
    by (simp add: Let_def b64_index_char sextets octets b64_char_not_pad)
next
  case (4 a b c rest)
  then show ?case
    using unat_byte [of a] unat_byte [of b] unat_byte [of c]
    by (simp add: Let_def b64_index_char sextets octets b64_char_not_pad)
qed

section \<open>JSON: the reader reads back what \<open>encode\<close> writes\<close>

lemma digit_char: "(d::nat) < 10 \<Longrightarrow> is_digit (char_of (48 + d)) \<and> digit_val (char_of (48 + d)) = d"
  by (simp add: is_digit_def digit_val_def)

lemma digit_char_zero: "(d::nat) < 10 \<Longrightarrow> char_of (48 + d) = CHR ''0'' \<Longrightarrow> d = 0"
proof -
  assume d: "d < 10" and e: "char_of (48 + d) = CHR ''0''"
  have "(of_char (char_of (48 + d)) :: nat) = of_char (CHR ''0'')" using e by simp
  with d show "d = 0" by simp
qed

lemma show_nat_digits: "\<forall>c \<in> set (show_nat n). is_digit c"
proof (induction n rule: show_nat.induct)
  case (1 n)
  show ?case
  proof (cases "n < 10")
    case True
    then show ?thesis by (simp add: show_nat.simps [of n] digit_char)
  next
    case False
    have "n mod 10 < 10" by simp
    with False 1 show ?thesis by (simp add: show_nat.simps [of n] digit_char)
  qed
qed

lemma show_nat_nonempty: "show_nat n \<noteq> []"
  by (simp add: show_nat.simps [of n])

lemma digits_val_snoc: "digits_val (ds @ [c]) = 10 * digits_val ds + digit_val c"
  by (simp add: digits_val_def)

lemma digits_val_show_nat: "digits_val (show_nat n) = n"
proof (induction n rule: show_nat.induct)
  case (1 n)
  show ?case
  proof (cases "n < 10")
    case True
    then show ?thesis by (simp add: show_nat.simps [of n] digits_val_def digit_char)
  next
    case False
    have "n mod 10 < 10" by simp
    with False 1 show ?thesis
      by (simp add: show_nat.simps [of n] digits_val_snoc digit_char)
  qed
qed

lemma show_nat_leading: "hd (show_nat n) = CHR ''0'' \<Longrightarrow> n = 0"
proof (induction n rule: show_nat.induct)
  case (1 n)
  show ?case
  proof (cases "n < 10")
    case True
    with 1(2) show ?thesis by (simp add: show_nat.simps [of n] digit_char_zero)
  next
    case False
    with 1(2) have "hd (show_nat (n div 10)) = CHR ''0''"
      by (simp add: show_nat.simps [of n] show_nat_nonempty)
    with 1(1) False have "n div 10 = 0" by simp
    with False show ?thesis by simp
  qed
qed

lemma show_nat_length: "1 < length (show_nat n) \<Longrightarrow> 0 < n"
  by (cases "n < 10") (auto simp: show_nat.simps [of n])

lemma ends_number_takeWhile:
  "ends_number rest \<Longrightarrow> takeWhile is_digit rest = [] \<and> dropWhile is_digit rest = rest"
  by (cases rest) (auto simp: ends_number_def is_digit_def)

lemma parse_nat_show_nat:
  assumes "ends_number rest"
  shows "parse_nat (show_nat n @ rest) = Some (n, rest)"
proof -
  have t: "takeWhile is_digit (show_nat n @ rest) = show_nat n"
    using show_nat_digits [of n] ends_number_takeWhile [OF assms]
    by (simp add: takeWhile_append2)
  have d: "dropWhile is_digit (show_nat n @ rest) = rest"
    using show_nat_digits [of n] ends_number_takeWhile [OF assms]
    by (simp add: dropWhile_append2)
  have z: "\<not> (hd (show_nat n) = CHR ''0'' \<and> 1 < length (show_nat n))"
    using show_nat_leading [of n] show_nat_length [of n] by auto
  have r: "\<not> (rest \<noteq> [] \<and> hd rest \<in> {CHR ''.'', CHR ''e'', CHR ''E''})"
    using assms by (auto simp: ends_number_def)
  show ?thesis
    unfolding parse_nat_def Let_def t d
    using z r by (simp add: show_nat_nonempty digits_val_show_nat)
qed

lemma show_nat_hd_digit: "is_digit (hd (show_nat n))"
  using show_nat_digits [of n] show_nat_nonempty [of n] by (cases "show_nat n") auto

lemma parse_number_show_int:
  assumes "ends_number rest"
  shows "parse_number (show_int i @ rest) = Some (i, rest)"
proof (cases "i < 0")
  case True
  then show ?thesis
    by (simp add: parse_number_def show_int_def parse_nat_show_nat [OF assms])
next
  case False
  obtain c cs where s: "show_nat (nat i) = c # cs"
    using show_nat_nonempty [of "nat i"] by (cases "show_nat (nat i)") auto
  have "is_digit c" using show_nat_hd_digit [of "nat i"] s by simp
  then have "c \<noteq> CHR ''-''" by (auto simp: is_digit_def)
  moreover have "parse_nat (c # cs @ rest) = Some (nat i, rest)"
    using parse_nat_show_nat [OF assms, of "nat i"] s by simp
  ultimately show ?thesis using False s
    by (simp add: parse_number_def show_int_def)
qed

lemma hex_val_digit: "k < 16 \<Longrightarrow> hex_val (hex_digit k) = Some k"
  by (auto simp: hex_val_def hex_digit_def)

lemma hex_val_zero: "hex_val (CHR ''0'') = Some 0"
  by (simp add: hex_val_def)

lemma char_of_nibbles: "char_of ((of_char c :: nat) div 16 * 16 + of_char c mod 16) = c"
  by simp

lemma nibble_bound: "(of_char c :: nat) div 16 < 16"
proof -
  have "(of_char c :: nat) < 256" by simp
  then show ?thesis by arith
qed

lemma parse_chars_escape_char:
  "parse_chars (escape_char c @ t) = cons_fst c (parse_chars t)"
proof -
  consider (q) "c = dquote" | (b) "c = backslash" | (n) "c = CHR 0x0A" | (r) "c = CHR 0x0D"
    | (t) "c = CHR 0x09" | (bs) "c = CHR 0x08" | (f) "c = CHR 0x0C"
    | (plain) "c \<noteq> dquote" "c \<noteq> backslash" "32 \<le> (of_char c :: nat)" "(of_char c :: nat) \<le> 126"
    | (other) "c \<noteq> dquote" "c \<noteq> backslash" "c \<noteq> CHR 0x0A" "c \<noteq> CHR 0x0D" "c \<noteq> CHR 0x09"
        "c \<noteq> CHR 0x08" "c \<noteq> CHR 0x0C" "\<not> (32 \<le> (of_char c :: nat) \<and> (of_char c :: nat) \<le> 126)"
    by blast
  then show ?thesis
  proof cases
    case q then show ?thesis by (simp add: escape_char_def unescape_def dquote_def backslash_def)
  next
    case b then show ?thesis by (simp add: escape_char_def unescape_def dquote_def backslash_def)
  next
    case n then show ?thesis by (simp add: escape_char_def unescape_def dquote_def backslash_def)
  next
    case r then show ?thesis by (simp add: escape_char_def unescape_def dquote_def backslash_def)
  next
    case t then show ?thesis by (simp add: escape_char_def unescape_def dquote_def backslash_def)
  next
    case bs then show ?thesis by (simp add: escape_char_def unescape_def dquote_def backslash_def)
  next
    case f then show ?thesis by (simp add: escape_char_def unescape_def dquote_def backslash_def)
  next
    case plain
    then have "escape_char c = [c]" by (auto simp: escape_char_def Let_def)
    with plain show ?thesis by simp
  next
    case other
    then have e: "escape_char c = [backslash, CHR ''u'', CHR ''0'', CHR ''0'',
        hex_digit (of_char c div 16), hex_digit (of_char c mod 16)]"
      by (simp add: escape_char_def Let_def)
    show ?thesis
      unfolding e
      by (simp add: hex_val_zero hex_val_digit nibble_bound dquote_def backslash_def)
  qed
qed

lemma parse_chars_escaped:
  "parse_chars (concat (map escape_char s) @ dquote # rest) = Some (s, rest)"
  by (induction s) (simp_all add: parse_chars_escape_char cons_fst_def)

lemma parse_value_string:
  "parse_value (Suc n) (encode_basestring_ascii s @ rest) = Some (PStr s, rest)"
  by (simp add: encode_basestring_ascii_def parse_chars_escaped)


lemma starts_token_append: "starts_token s \<Longrightarrow> starts_token (s @ t)"
  by (simp add: starts_token_def)

lemma skip_ws_token: "starts_token s \<Longrightarrow> skip_ws s = s"
  by (cases s) (simp_all add: starts_token_def skip_ws_def)

lemma skip_ws_nil: "skip_ws [] = []"
  by (simp add: skip_ws_def)

lemma skip_ws_space: "skip_ws (CHR '' '' # s) = skip_ws s"
  by (simp add: skip_ws_def is_ws_def)

lemma skip_ws_punct [simp]:
  "skip_ws (CHR '','' # s) = CHR '','' # s"
  "skip_ws (CHR '']'' # s) = CHR '']'' # s"
  "skip_ws (CHR ''}'' # s) = CHR ''}'' # s"
  "skip_ws (CHR '':'' # s) = CHR '':'' # s"
  by (simp_all add: skip_ws_def is_ws_def)

lemma starts_token_string: "starts_token (encode_basestring_ascii s)"
  by (simp add: starts_token_def encode_basestring_ascii_def dquote_def is_ws_def)

lemma starts_token_digit: "is_digit c \<Longrightarrow> starts_token (c # cs)"
  by (auto simp: starts_token_def is_digit_def is_ws_def)

lemma starts_token_show_int: "starts_token (show_int i)"
proof (cases "i < 0")
  case True
  then show ?thesis by (simp add: show_int_def starts_token_def is_ws_def)
next
  case False
  obtain c cs where s: "show_nat (nat i) = c # cs"
    using show_nat_nonempty [of "nat i"] by (cases "show_nat (nat i)") auto
  have "is_digit c" using show_nat_hd_digit [of "nat i"] s by simp
  with s False show ?thesis by (simp add: show_int_def starts_token_digit)
qed

lemma starts_token_encode: "bytes_free v \<Longrightarrow> starts_token (encode v)"
  by (cases v) (simp_all add: starts_token_string starts_token_show_int,
      simp_all add: starts_token_def is_ws_def)

lemma show_int_first:
  "\<exists>c cs. show_int i = c # cs \<and> c \<noteq> dquote \<and> c \<noteq> CHR ''['' \<and> c \<noteq> CHR ''{''"
proof (cases "i < 0")
  case True
  then show ?thesis by (simp add: show_int_def dquote_def)
next
  case False
  obtain c cs where s: "show_nat (nat i) = c # cs"
    using show_nat_nonempty [of "nat i"] by (cases "show_nat (nat i)") auto
  have "is_digit c" using show_nat_hd_digit [of "nat i"] s by simp
  then have "c \<noteq> dquote \<and> c \<noteq> CHR ''['' \<and> c \<noteq> CHR ''{''"
    by (auto simp: is_digit_def dquote_def)
  with s False show ?thesis by (simp add: show_int_def)
qed

lemma parse_value_int:
  assumes "ends_number rest"
  shows "parse_value (Suc n) (show_int i @ rest) = Some (PInt i, rest)"
proof -
  obtain c cs where s: "show_int i = c # cs" and c: "c \<noteq> dquote" "c \<noteq> CHR ''[''" "c \<noteq> CHR ''{''"
    using show_int_first [of i] by blast
  have "parse_number (c # cs @ rest) = Some (i, rest)"
    using parse_number_show_int [OF assms, of i] s by simp
  with c show ?thesis by (simp add: s)
qed


lemma ends_number_punct [simp]:
  "ends_number (CHR '','' # s)" "ends_number (CHR '']'' # s)" "ends_number (CHR ''}'' # s)"
  by (simp_all add: ends_number_def)

lemma starts_token_join:
  "xs \<noteq> [] \<Longrightarrow> starts_token (hd xs) \<Longrightarrow> starts_token (join sep xs)"
  by (induction sep xs rule: join.induct) (simp_all add: starts_token_append)

lemma parse_elements_join:
  assumes "xs \<noteq> []"
    and "\<forall>x \<in> set xs. bytes_free x \<and> reads_back x"
    and "length (join '', '' (map encode xs)) < n"
  shows "parse_elements n (join '', '' (map encode xs) @ CHR '']'' # rest) = Some (xs, rest)"
  using assms
proof (induction xs arbitrary: n)
  case Nil
  then show ?case by simp
next
  case (Cons x xs)
  from Cons.prems(3) obtain m where n: "n = Suc m" by (cases n) auto
  have rb: "reads_back x" using Cons.prems(2) by simp
  show ?case
  proof (cases xs)
    case Nil
    have "length (encode x) \<le> m" using Cons.prems(3) n Nil by simp
    then have "parse_value m (encode x @ CHR '']'' # rest) = Some (x, CHR '']'' # rest)"
      using rb by (simp add: reads_back_def)
    then show ?thesis by (simp add: n Nil)
  next
    case (Cons y ys)
    let ?tail = "join '', '' (map encode (y # ys))"
    have l: "length (encode x) \<le> m" "length ?tail < m"
      using Cons.prems(3) n Cons by simp_all
    have pv: "parse_value m (encode x @ CHR '','' # CHR '' '' # ?tail @ CHR '']'' # rest)
        = Some (x, CHR '','' # CHR '' '' # ?tail @ CHR '']'' # rest)"
      using rb l(1) by (simp add: reads_back_def)
    have "bytes_free y" using Cons.prems(2) Cons by simp
    then have "starts_token ?tail"
      using starts_token_join [of "map encode (y # ys)" "'', ''"]
      by (simp add: starts_token_encode)
    then have sk: "skip_ws (?tail @ CHR '']'' # rest) = ?tail @ CHR '']'' # rest"
      by (simp add: skip_ws_token starts_token_append)
    have ih: "parse_elements m (?tail @ CHR '']'' # rest) = Some (y # ys, rest)"
      using Cons.IH [of m] Cons.prems(2) l(2) Cons by simp
    show ?thesis
      using pv sk ih by (simp add: n Cons skip_ws_space cons_fst_def)
  qed
qed


lemma starts_token_member: "starts_token (encode_member kv)"
  by (simp add: encode_member_def starts_token_string starts_token_append)

lemma parse_members_join:
  assumes "kvs \<noteq> []"
    and "\<forall>kv \<in> set kvs. bytes_free (snd kv) \<and> reads_back (snd kv)"
    and "length (join '', '' (map encode_member kvs)) < n"
  shows "parse_members n (join '', '' (map encode_member kvs) @ CHR ''}'' # rest) = Some (kvs, rest)"
  using assms
proof (induction kvs arbitrary: n)
  case Nil
  then show ?case by simp
next
  case (Cons kv kvs)
  obtain k v where kv: "kv = (k, v)" by (cases kv)
  from Cons.prems(3) obtain m where n: "n = Suc m" by (cases n) auto
  have rb: "reads_back v" and sv: "bytes_free v" using Cons.prems(2) kv by simp_all
  have key: "\<And>t. encode_member (k, v) @ t =
      dquote # concat (map escape_char k) @ dquote # CHR '':'' # CHR '' '' # encode v @ t"
    by (simp add: encode_member_def encode_basestring_ascii_def)
  have skv: "\<And>t. skip_ws (encode v @ t) = encode v @ t"
    using sv by (simp add: skip_ws_token starts_token_append starts_token_encode)
  have lm: "length (encode v) < length (encode_member kv)"
    by (simp add: encode_member_def kv)
  show ?case
  proof (cases kvs)
    case Nil
    have "length (encode v) \<le> m" using Cons.prems(3) n Nil lm by simp
    then have "parse_value m (encode v @ CHR ''}'' # rest) = Some (v, CHR ''}'' # rest)"
      using rb by (simp add: reads_back_def)
    then show ?thesis
      by (simp add: n Nil key parse_chars_escaped skip_ws_space skv kv)
  next
    case (Cons kv' kvs')
    let ?tail = "join '', '' (map encode_member (kv' # kvs'))"
    have l: "length (encode v) \<le> m" "length ?tail < m"
      using Cons.prems(3) n Cons lm by simp_all
    have pv: "parse_value m (encode v @ CHR '','' # CHR '' '' # ?tail @ CHR ''}'' # rest)
        = Some (v, CHR '','' # CHR '' '' # ?tail @ CHR ''}'' # rest)"
      using rb l(1) by (simp add: reads_back_def)
    have "starts_token ?tail"
      using starts_token_join [of "map encode_member (kv' # kvs')" "'', ''"]
      by (simp add: starts_token_member)
    then have sk: "skip_ws (?tail @ CHR ''}'' # rest) = ?tail @ CHR ''}'' # rest"
      by (simp add: skip_ws_token starts_token_append)
    have ih: "parse_members m (?tail @ CHR ''}'' # rest) = Some (kv' # kvs', rest)"
      using Cons.IH [of m] Cons.prems(2) l(2) Cons by simp
    show ?thesis
      using pv sk ih
      by (simp add: n Cons key parse_chars_escaped skip_ws_space skv kv cons_fst_def)
  qed
qed

lemma encode_dict: "encode (PDict kvs) = CHR ''{'' # join '', '' (map encode_member kvs) @ ''}''"
  by (simp add: encode_member_def [abs_def])

lemma reads_back_encode: "bytes_free v \<Longrightarrow> reads_back v"
proof (induction v)
  case (PStr s)
  show ?case
    unfolding reads_back_def
  proof (intro allI impI)
    fix n rest
    assume "length (encode (PStr s)) \<le> n"
    then obtain m where "n = Suc m" by (cases n) (auto simp: encode_basestring_ascii_def)
    then show "parse_value n (encode (PStr s) @ rest) = Some (PStr s, rest)"
      using parse_value_string [of m s rest] by (simp del: parse_value.simps)
  qed
next
  case (PInt i)
  show ?case
    unfolding reads_back_def
  proof (intro allI impI)
    fix n rest
    assume e: "ends_number rest" and "length (encode (PInt i)) \<le> n"
    then obtain m where "n = Suc m"
      using show_int_first [of i] by (cases n) auto
    then show "parse_value n (encode (PInt i) @ rest) = Some (PInt i, rest)"
      using parse_value_int [OF e, of m i] by (simp del: parse_value.simps)
  qed
next
  case (PBytes b)
  then show ?case by simp
next
  case (PList xs)
  then have all: "\<forall>x \<in> set xs. bytes_free x \<and> reads_back x"
    by (simp add: list_all_iff)
  show ?case
    unfolding reads_back_def
  proof (intro allI impI)
    fix n rest
    assume "length (encode (PList xs)) \<le> n"
    then obtain m where n: "n = Suc m" and m: "length (join '', '' (map encode xs)) < m"
      by (cases n) auto
    show "parse_value n (encode (PList xs) @ rest) = Some (PList xs, rest)"
    proof (cases "xs = []")
      case True
      then show ?thesis by (simp add: n dquote_def)
    next
      case False
      then have "bytes_free (hd xs)" using all by simp
      then have st: "starts_token (join '', '' (map encode xs) @ CHR '']'' # rest)"
        using starts_token_join [of "map encode xs" "'', ''"] False
        by (simp add: starts_token_encode starts_token_append hd_map)
      then obtain d ds where d: "join '', '' (map encode xs) @ CHR '']'' # rest = d # ds"
        and dn: "d \<noteq> CHR '']''"
        by (cases "join '', '' (map encode xs) @ CHR '']'' # rest") (auto simp: starts_token_def)
      have "parse_elements m (d # ds) = Some (xs, rest)"
        using parse_elements_join [OF False all m, of rest] d by simp
      moreover have "skip_ws (d # ds) = d # ds"
        using st d by (simp add: skip_ws_token)
      ultimately show ?thesis
        using d dn by (simp add: n dquote_def)
    qed
  qed
next
  case (PDict kvs)
  have all: "\<forall>kv \<in> set kvs. bytes_free (snd kv) \<and> reads_back (snd kv)"
  proof
    fix kv assume kv: "kv \<in> set kvs"
    then have s: "bytes_free (snd kv)" using PDict.prems by (simp add: list_all_iff)
    have "snd kv \<in> Basic_BNFs.snds kv" by (cases kv) simp
    from PDict.IH [OF kv this s] s show "bytes_free (snd kv) \<and> reads_back (snd kv)" by simp
  qed
  show ?case
    unfolding reads_back_def
  proof (intro allI impI)
    fix n rest
    assume "length (encode (PDict kvs)) \<le> n"
    then obtain m where n: "n = Suc m" and m: "length (join '', '' (map encode_member kvs)) < m"
      unfolding encode_dict by (cases n) auto
    show "parse_value n (encode (PDict kvs) @ rest) = Some (PDict kvs, rest)"
    proof (cases "kvs = []")
      case True
      then show ?thesis by (simp add: n dquote_def)
    next
      case False
      have st: "starts_token (join '', '' (map encode_member kvs) @ CHR ''}'' # rest)"
        using starts_token_join [of "map encode_member kvs" "'', ''"] False
        by (simp add: starts_token_member starts_token_append hd_map)
      then obtain d ds where d: "join '', '' (map encode_member kvs) @ CHR ''}'' # rest = d # ds"
        and dn: "d \<noteq> CHR ''}''"
        by (cases "join '', '' (map encode_member kvs) @ CHR ''}'' # rest")
          (auto simp: starts_token_def)
      have "parse_members m (d # ds) = Some (kvs, rest)"
        using parse_members_join [OF False all m, of rest] d by simp
      moreover have "skip_ws (d # ds) = d # ds"
        using st d by (simp add: skip_ws_token)
      ultimately show ?thesis
        using d dn unfolding encode_dict by (simp add: n dquote_def)
    qed
  qed
qed

lemma json_loads_encode: "bytes_free v \<Longrightarrow> json_loads (encode v) = Some v"
proof -
  assume s: "bytes_free v"
  have "parse_value (length (encode v)) (encode v @ []) = Some (v, [])"
    using reads_back_encode [OF s] by (simp add: reads_back_def ends_number_def)
  then show ?thesis
    using s by (simp add: json_loads_def skip_ws_token starts_token_encode skip_ws_nil)
qed

section \<open>The accumulators\<close>

lemma loop_body_prefix:
  assumes "loop_body st c = Inr st'"
  shows "prefix (audio_data st) (audio_data st') \<and> prefix (boundaries st) (boundaries st')"
  using assms
  by (auto simp: loop_body_def bytearray_extend_def split: sum.splits if_splits)

lemma drain_prefix:
  "drain st ps = Inr st' \<Longrightarrow>
     prefix (audio_data st) (audio_data st') \<and> prefix (boundaries st) (boundaries st')"
proof (induction st ps rule: drain.induct)
  case (3 st c ps)
  then obtain st1 where b: "loop_body st c = Inr st1" and d: "drain st1 ps = Inr st'"
    by (auto split: sum.splits)
  from loop_body_prefix[OF b] 3(1)[OF b d] show ?case
    by (meson prefix_order.trans)
qed simp_all

text \<open>
  C7. A chunk that has a \<^verbatim>\<open>type\<close> which is neither \<^verbatim>\<open>"audio"\<close> nor
  \<^verbatim>\<open>"WordBoundary"\<close> is ignored: the loop body raises nothing and leaves both accumulators
  as they were.
\<close>

theorem other_chunk_ignored:
  assumes "getitem c ''type'' = Inr k" and "k \<noteq> PStr ''audio''" and "k \<noteq> PStr ''WordBoundary''"
  shows "loop_body st c = Inr st"
  using assms by (simp add: loop_body_def)

theorem other_chunk_ignored_witness:
  "getitem sentence_chunk ''type'' = Inr (PStr ''SentenceBoundary'') \<and>
   loop_body \<lparr>audio_data = [7], boundaries = [word_chunk]\<rparr> sentence_chunk
     = Inr \<lparr>audio_data = [7], boundaries = [word_chunk]\<rparr>"
  using other_chunk_ignored [of sentence_chunk "PStr ''SentenceBoundary''"
      "\<lparr>audio_data = [7], boundaries = [word_chunk]\<rparr>"]
  by (simp add: getitem_def sentence_chunk_def)

text \<open>
  C10. Both accumulators are append-only. One pass of the loop body that does not raise
  extends the audio buffer at its end (possibly by nothing) and either keeps the list of
  boundaries or appends the chunk to it; hence over any number of pulls the earlier content
  of both stays a prefix of the later content.
\<close>

theorem accumulators_append_only:
  "(loop_body st c = Inr st' \<longrightarrow>
      (\<exists>bs. audio_data st' = audio_data st @ bs) \<and>
      (boundaries st' = boundaries st \<or> boundaries st' = boundaries st @ [c])) \<and>
   (drain st ps = Inr st'' \<longrightarrow>
      prefix (audio_data st) (audio_data st'') \<and> prefix (boundaries st) (boundaries st''))"
  using drain_prefix [of st ps st'']
  by (auto simp: loop_body_def bytearray_extend_def split: sum.splits if_splits)

theorem accumulators_append_only_witness:
  "drain \<lparr>audio_data = [7], boundaries = [sentence_chunk]\<rparr> [Yield audio_chunk, Yield word_chunk]
     = Inr \<lparr>audio_data = [7, 1, 2], boundaries = [sentence_chunk, word_chunk]\<rparr> \<and>
   prefix [7 :: byte] [7, 1, 2] \<and> prefix [sentence_chunk] [sentence_chunk, word_chunk]"
  using accumulators_append_only [of "\<lparr>audio_data = [7], boundaries = [sentence_chunk]\<rparr>"
      audio_chunk "\<lparr>audio_data = [7, 1, 2], boundaries = [sentence_chunk]\<rparr>"
      "[Yield audio_chunk, Yield word_chunk]"
      "\<lparr>audio_data = [7, 1, 2], boundaries = [sentence_chunk, word_chunk]\<rparr>"]
  by (simp add: loop_body_def getitem_def bytearray_extend_def audio_chunk_def word_chunk_def)

section \<open>Faults\<close>

text \<open>
  C3. When a fault is raised while the stream is drained (by a pull or by the loop body),
  standard output is empty, standard error is not, and the exit code is not zero: nothing
  of what was accumulated is written.
\<close>

theorem fault_while_draining:
  assumes "parse_args supplied = Inr args"
    and "Communicate (communicate_kwargs args) = Inr ps"
    and "drain init_accs ps = Inl e"
  shows "stdout (main ev supplied Communicate) = [] \<and>
         stderr (main ev supplied Communicate) \<noteq> [] \<and>
         exit_code (main ev supplied Communicate) \<noteq> 0"
  using assms by (simp add: main_def after_construct_def guarded_def try_block_def)

theorem fault_while_draining_witness:
  "drain init_accs partial_stream = Inl (CollabError ''No audio was received'') \<and>
   stdout (main ev0 [''--text'' \<mapsto> ''Hi''] (\<lambda>kw. Inr partial_stream)) = [] \<and>
   stderr (main ev0 [''--text'' \<mapsto> ''Hi''] (\<lambda>kw. Inr partial_stream)) \<noteq> [] \<and>
   exit_code (main ev0 [''--text'' \<mapsto> ''Hi''] (\<lambda>kw. Inr partial_stream)) \<noteq> 0"
proof -
  have p: "parse_args [''--text'' \<mapsto> ''Hi''] =
      Inr \<lparr>ns_text = ''Hi'', ns_voice = ''en-US-GuyNeural'', ns_rate = ''+0%'', ns_pitch = ''+0Hz''\<rparr>"
    by (simp add: parse_args_def get_default_def)
  have d: "drain init_accs partial_stream = Inl (CollabError ''No audio was received'')"
    by (simp add: partial_stream_def init_accs_def loop_body_def getitem_def
        bytearray_extend_def audio_chunk_def word_chunk_def)
  from fault_while_draining [of _ _ "\<lambda>kw. Inr partial_stream", OF p refl d, of ev0] d
  show ?thesis by simp
qed

text \<open>
  C4, as stated, fails for two steps that lie outside the \<^verbatim>\<open>try\<close>: a command line
  without \<^verbatim>\<open>--text\<close> ends with exit code 2 and \<^verbatim>\<open>argparse\<close>'s own message, and an
  exception of the \<^verbatim>\<open>Communicate\<close> constructor is not caught, so the interpreter prints
  a traceback.
\<close>

theorem fault_report_counterexample:
  "exit_code (main ev0 Map.empty (\<lambda>kw. Inr [])) = 2 \<and>
   \<not> prefix ''Error: '' (stderr (main ev0 Map.empty (\<lambda>kw. Inr []))) \<and>
   exit_code (main ev0 [''--text'' \<mapsto> ''Hi'', ''--rate'' \<mapsto> ''fast''] invalid_rate) = 1 \<and>
   \<not> prefix ''Error: '' (stderr (main ev0 [''--text'' \<mapsto> ''Hi'', ''--rate'' \<mapsto> ''fast''] invalid_rate))"
  by (simp add: main_def parse_args_def argparse_error_def ev0_def after_construct_def
      invalid_rate_def uncaught_def get_default_def)

text \<open>
  C4, amended. A fault raised inside the \<^verbatim>\<open>try\<close> (by a pull, which includes the first
  one that opens the session, by the loop body, or by the serialization of the result) is
  written to standard error as \<^verbatim>\<open>Error: \<close> followed by its description and a line
  feed, nothing is written to standard output, and the exit code is 1. When the command
  line is one that \<^verbatim>\<open>argparse\<close> splits into flag values (no request for help, nothing
  malformed) and \<^verbatim>\<open>--text\<close> is not among them, standard error receives the usage
  text followed by the program name, \<^verbatim>\<open>: error: the following arguments are required: --text\<close>
  and a line feed, standard output receives nothing, and the exit code is 2.
\<close>

theorem fault_report:
  "(supplied ''--text'' = None \<longrightarrow>
      main ev supplied Communicate =
        \<lparr>stdout = [],
         stderr = usage ev @ prog ev @ '': error: the following arguments are required: --text''
                    @ [newline],
         exit_code = 2\<rparr>) \<and>
   (parse_args supplied = Inr args \<and> Communicate (communicate_kwargs args) = Inr ps \<and>
    try_block ev ps = Inl e \<longrightarrow>
      main ev supplied Communicate =
        \<lparr>stdout = [], stderr = ''Error: '' @ str_exn e @ [newline], exit_code = 1\<rparr>)"
  by (simp add: main_def parse_args_def argparse_error_def after_construct_def guarded_def)

theorem fault_report_witness:
  "try_block ev0 partial_stream = Inl (CollabError ''No audio was received'') \<and>
   main ev0 [''--text'' \<mapsto> ''Hi''] (\<lambda>kw. Inr partial_stream) =
     \<lparr>stdout = [], stderr = ''Error: No audio was received'' @ [newline], exit_code = 1\<rparr> \<and>
   try_block ev0 [Yield [(''kind'', PStr ''audio'')]] = Inl (KeyError ''type'') \<and>
   main ev0 [''--text'' \<mapsto> ''Hi''] (\<lambda>kw. Inr [Yield [(''kind'', PStr ''audio'')]]) =
     \<lparr>stdout = [], stderr = ''Error: '' @ [squote] @ ''type'' @ [squote, newline], exit_code = 1\<rparr> \<and>
   main ev0 Map.empty (\<lambda>kw. Inr partial_stream) =
     \<lparr>stdout = [],
      stderr = usage ev0 @ ''tts_bridge.py: error: the following arguments are required: --text''
                 @ [newline],
      exit_code = 2\<rparr>"
proof -
  have p: "parse_args [''--text'' \<mapsto> ''Hi''] =
      Inr \<lparr>ns_text = ''Hi'', ns_voice = ''en-US-GuyNeural'', ns_rate = ''+0%'', ns_pitch = ''+0Hz''\<rparr>"
    by (simp add: parse_args_def get_default_def)
  have d: "try_block ev0 partial_stream = Inl (CollabError ''No audio was received'')"
    by (simp add: try_block_def partial_stream_def init_accs_def loop_body_def getitem_def
        bytearray_extend_def audio_chunk_def word_chunk_def)
  have k: "try_block ev0 [Yield [(''kind'', PStr ''audio'')]] = Inl (KeyError ''type'')"
    by (simp add: try_block_def init_accs_def loop_body_def getitem_def)
  have r: "str_exn (KeyError ''type'') = [squote] @ ''type'' @ [squote]"
    by (simp add: py_repr_def repr_char_def squote_def dquote_def backslash_def Let_def)
  have g: "prog ev0 = ''tts_bridge.py''" by (simp add: ev0_def)
  have m1: "main ev0 [''--text'' \<mapsto> ''Hi''] (\<lambda>kw. Inr partial_stream) =
      \<lparr>stdout = [], stderr = ''Error: No audio was received'' @ [newline], exit_code = 1\<rparr>"
    using fault_report [of "[''--text'' \<mapsto> ''Hi'']" ev0 "\<lambda>kw. Inr partial_stream" _
        partial_stream "CollabError ''No audio was received''"] p d
    by simp
  have m2: "main ev0 [''--text'' \<mapsto> ''Hi''] (\<lambda>kw. Inr [Yield [(''kind'', PStr ''audio'')]]) =
      \<lparr>stdout = [], stderr = ''Error: '' @ [squote] @ ''type'' @ [squote, newline], exit_code = 1\<rparr>"
    using fault_report [of "[''--text'' \<mapsto> ''Hi'']" ev0
        "\<lambda>kw. Inr [Yield [(''kind'', PStr ''audio'')]]" _
        "[Yield [(''kind'', PStr ''audio'')]]" "KeyError ''type''"] p k r
    by (simp del: str_exn.simps)
  have m3: "main ev0 Map.empty (\<lambda>kw. Inr partial_stream) =
      \<lparr>stdout = [],
       stderr = usage ev0 @ ''tts_bridge.py: error: the following arguments are required: --text''
                  @ [newline],
       exit_code = 2\<rparr>"
    using fault_report [of Map.empty ev0 "\<lambda>kw. Inr partial_stream"] g by simp
  from d k m1 m2 m3 show ?thesis by blast
qed

section \<open>The session\<close>

text \<open>
  C8. The run is determined by the parameters as follows: without \<^verbatim>\<open>--text\<close> no session
  is made and \<^verbatim>\<open>argparse\<close> reports the missing argument; otherwise the collaborator is
  called exactly once, with the given text, with the voice, rate and pitch given or else
  \<^verbatim>\<open>en-US-GuyNeural\<close>, \<^verbatim>\<open>+0%\<close> and \<^verbatim>\<open>+0Hz\<close>, and with the boundary kind
  \<^verbatim>\<open>WordBoundary\<close>.
\<close>

theorem session_configuration:
  "main ev supplied Communicate =
     (case supplied ''--text'' of
        None \<Rightarrow> argparse_error ev ''the following arguments are required: --text''
      | Some t \<Rightarrow>
          after_construct ev
            (Communicate
               \<lparr>kw_text = t,
                kw_voice = (case supplied ''--voice'' of None \<Rightarrow> ''en-US-GuyNeural'' | Some v \<Rightarrow> v),
                kw_rate = (case supplied ''--rate'' of None \<Rightarrow> ''+0%'' | Some v \<Rightarrow> v),
                kw_pitch = (case supplied ''--pitch'' of None \<Rightarrow> ''+0Hz'' | Some v \<Rightarrow> v),
                kw_boundary = ''WordBoundary''\<rparr>))"
  by (simp add: main_def parse_args_def communicate_kwargs_def get_default_def split: option.splits)

section \<open>The text on standard output\<close>

lemma printable_hex_digit: "k < 16 \<Longrightarrow> printable (hex_digit k)"
  by (auto simp: printable_def hex_digit_def)

lemma printable_consts:
  "printable backslash" "printable dquote" "printable (CHR ''n'')" "printable (CHR ''r'')"
  "printable (CHR ''t'')" "printable (CHR ''b'')" "printable (CHR ''f'')" "printable (CHR ''u'')"
  "printable (CHR ''0'')" "printable (CHR ''-'')" "printable (CHR ''['')" "printable (CHR '']'')"
  "printable (CHR ''{'')" "printable (CHR ''}'')" "printable (CHR '','')" "printable (CHR '' '')"
  "printable (CHR '':'')"
  by (simp_all add: printable_def backslash_def dquote_def)

lemma printable_escape_char: "x \<in> set (escape_char c) \<Longrightarrow> printable x"
proof -
  assume x: "x \<in> set (escape_char c)"
  have h: "printable (hex_digit (of_char c div 16))" "printable (hex_digit (of_char c mod 16))"
    using nibble_bound [of c] by (simp_all add: printable_hex_digit)
  show ?thesis
  proof (cases "32 \<le> (of_char c :: nat) \<and> (of_char c :: nat) \<le> 126")
    case True
    then have "printable c" by (simp add: printable_def)
    with x h show ?thesis
      by (auto simp: escape_char_def Let_def printable_consts split: if_splits)
  next
    case False
    with x h show ?thesis
      by (auto simp: escape_char_def Let_def printable_consts split: if_splits)
  qed
qed


lemma printable_string: "x \<in> set (encode_basestring_ascii s) \<Longrightarrow> printable x"
  using printable_escape_char
  by (auto simp: encode_basestring_ascii_def printable_consts)

lemma printable_digit: "is_digit c \<Longrightarrow> printable c"
  by (simp add: is_digit_def printable_def)

lemma printable_show_int: "x \<in> set (show_int i) \<Longrightarrow> printable x"
  using show_nat_digits printable_digit
  by (auto simp: show_int_def printable_consts split: if_splits)

lemma printable_join:
  "(\<And>s x. s \<in> set xs \<Longrightarrow> x \<in> set s \<Longrightarrow> printable x) \<Longrightarrow>
     x \<in> set (join '', '' xs) \<Longrightarrow> printable x"
  by (induction "'', ''" xs rule: join.induct) (auto simp: printable_consts)


lemma printable_encode: "x \<in> set (encode v) \<Longrightarrow> printable x"
proof (induction v arbitrary: x)
  case (PStr s)
  then show ?case using printable_string by simp
next
  case (PInt i)
  then show ?case using printable_show_int by simp
next
  case (PBytes b)
  then show ?case by simp
next
  case (PList xs)
  have j: "\<And>y. y \<in> set (join '', '' (map encode xs)) \<Longrightarrow> printable y"
  proof (erule printable_join [rotated])
    fix s y assume "s \<in> set (map encode xs)" and "y \<in> set s"
    then show "printable y" using PList.IH by auto
  qed
  from PList.prems show ?case
    using j by (auto simp: printable_consts)
next
  case (PDict kvs)
  have j: "\<And>y. y \<in> set (join '', '' (map encode_member kvs)) \<Longrightarrow> printable y"
  proof (erule printable_join [rotated])
    fix s y assume "s \<in> set (map encode_member kvs)" and y: "y \<in> set s"
    then obtain k v where kv: "(k, v) \<in> set kvs" and s: "s = encode_member (k, v)" by auto
    have "v \<in> Basic_BNFs.snds (k, v)" by simp
    from PDict.IH [OF kv this] printable_string [of _ k] y s show "printable y"
      by (auto simp: encode_member_def printable_consts)
  qed
  from PDict.prems show ?case
    unfolding encode_dict using j by (auto simp: printable_consts)
qed

lemma one_line_encode: "one_line (encode v @ [newline])"
proof -
  have "\<not> printable newline" by (simp add: printable_def newline_def)
  then have "newline \<notin> set (encode v)" using printable_encode [of newline v] by blast
  then show ?thesis by (simp add: one_line_def)
qed

section \<open>The result document\<close>

lemma loop_body_effect:
  assumes "loop_body st c = Inr st'"
  shows "audio_data st' =
           audio_data st @ (if kind c = Some (PStr ''audio'') then payload_of c else [])"
    and "boundaries st' =
           boundaries st @ (if kind c = Some (PStr ''WordBoundary'') then [c] else [])"
  using assms
  by (auto simp: loop_body_def getitem_def kind_def payload_of_def bytearray_extend_def
      split: option.splits sum.splits if_splits)

lemma audio_payloads_simps:
  "audio_payloads [] = []"
  "audio_payloads (Raise e # ps) = []"
  "audio_payloads (Yield c # ps) =
     (if kind c = Some (PStr ''audio'') then payload_of c else []) @ audio_payloads ps"
  by (simp_all add: audio_payloads_def audio_chunks_def)

lemma boundary_chunks_simps:
  "boundary_chunks [] = []"
  "boundary_chunks (Raise e # ps) = []"
  "boundary_chunks (Yield c # ps) =
     (if kind c = Some (PStr ''WordBoundary'') then [c] else []) @ boundary_chunks ps"
  by (simp_all add: boundary_chunks_def)

lemma drain_effect:
  "drain st ps = Inr st' \<Longrightarrow>
     audio_data st' = audio_data st @ audio_payloads ps \<and>
     boundaries st' = boundaries st @ boundary_chunks ps"
proof (induction st ps rule: drain.induct)
  case (1 st)
  then show ?case by (simp add: audio_payloads_simps boundary_chunks_simps)
next
  case (2 st e ps)
  then show ?case by simp
next
  case (3 st c ps)
  from 3(2) obtain st1 where b: "loop_body st c = Inr st1" and d: "drain st1 ps = Inr st'"
    by (auto split: sum.splits)
  have a1: "audio_data st' = audio_data st1 @ audio_payloads ps"
    and b1: "boundaries st' = boundaries st1 @ boundary_chunks ps"
    using 3(1) [OF b d] by simp_all
  show ?case
    unfolding a1 b1 loop_body_effect [OF b] audio_payloads_simps boundary_chunks_simps
    by (simp only: append_assoc)
qed

lemma drain_init:
  "drain init_accs ps = Inr st \<Longrightarrow>
     st = \<lparr>audio_data = audio_payloads ps, boundaries = boundary_chunks ps\<rparr>"
  using drain_effect [of init_accs ps st] by (simp add: init_accs_def)

lemma first_some_None: "first_some xs = None \<longleftrightarrow> (\<forall>x \<in> set xs. x = None)"
  by (induction xs rule: first_some.induct) simp_all


lemma first_error_bytes_free: "first_error L d v = None \<Longrightarrow> bytes_free v"
proof (induction v arbitrary: d)
  case (PList xs)
  from PList.prems have "\<forall>x \<in> set xs. first_error L (d - 1) x = None"
    by (simp add: first_some_None split: if_splits)
  with PList.IH have "\<forall>x \<in> set xs. bytes_free x" by blast
  then show ?case by (simp add: list_all_iff)
next
  case (PDict kvs)
  from PDict.prems have n: "\<forall>kv \<in> set kvs. first_error L (d - 1) (snd kv) = None"
    by (simp add: first_some_None split: if_splits)
  have "\<forall>kv \<in> set kvs. bytes_free (snd kv)"
  proof
    fix kv assume kv: "kv \<in> set kvs"
    have "snd kv \<in> Basic_BNFs.snds kv" by (cases kv) simp
    from PDict.IH [OF kv this] n kv show "bytes_free (snd kv)" by blast
  qed
  then show ?case by (simp add: list_all_iff)
qed simp_all

lemma first_some_single: "first_some [x] = x"
  by (cases x) simp_all

lemma first_error_result:
  "first_error L (2 + r) (result st) =
     first_some (map (\<lambda>c. first_error L r (PDict c)) (boundaries st))"
proof -
  have "first_error L (2 + r) (result st) =
      first_error L (Suc r) (PList (map PDict (boundaries st)))"
    unfolding result_def first_error.simps(5)
    by (simp add: first_some_single del: first_error.simps(4,5))
  also have "\<dots> = first_some (map (first_error L r) (map PDict (boundaries st)))"
    unfolding first_error.simps(4) by simp
  also have "\<dots> = first_some (map (\<lambda>c. first_error L r (PDict c)) (boundaries st))"
    unfolding map_map comp_def ..
  finally show ?thesis .
qed

lemma main_drained:
  assumes "parse_args supplied = Inr args"
    and "Communicate (communicate_kwargs args) = Inr ps"
    and "drain init_accs ps = Inr st"
  shows "main ev supplied Communicate =
     (case first_some (map (\<lambda>c. first_error (int_max_str_digits ev) (nesting_room ev) (PDict c))
                         (boundary_chunks ps)) of
        Some e \<Rightarrow> \<lparr>stdout = [], stderr = ''Error: '' @ str_exn e @ [newline], exit_code = 1\<rparr>
      | None \<Rightarrow> \<lparr>stdout = encode (result st) @ [newline], stderr = [], exit_code = 0\<rparr>)"
proof -
  have b: "boundaries st = boundary_chunks ps" using drain_init [OF assms(3)] by simp
  have t: "try_block ev ps =
      (case first_some (map (\<lambda>c. first_error (int_max_str_digits ev) (nesting_room ev) (PDict c))
                          (boundary_chunks ps)) of
         Some e \<Rightarrow> Inl e
       | None \<Rightarrow> Inr (encode (result st)))"
    unfolding try_block_def assms(3) json_dumps_def first_error_result
    by (simp add: b del: first_error.simps)
  show ?thesis
    using assms(1,2)
    by (simp add: main_def after_construct_def guarded_def t split: option.splits
        del: first_error.simps)
qed

lemma success_cases:
  assumes "parse_args supplied = Inr args"
    and "Communicate (communicate_kwargs args) = Inr ps"
    and "exit_code (main ev supplied Communicate) = 0"
  obtains st where "drain init_accs ps = Inr st" and "bytes_free (result st)"
    and "stdout (main ev supplied Communicate) = encode (result st) @ [newline]"
proof -
  from assms have g: "exit_code (guarded ev ps) = 0"
    and m: "main ev supplied Communicate = guarded ev ps"
    by (simp_all add: main_def after_construct_def)
  from g obtain doc where t: "try_block ev ps = Inr doc"
    by (cases "try_block ev ps") (simp_all add: guarded_def)
  then obtain st where d: "drain init_accs ps = Inr st"
    and j: "json_dumps (int_max_str_digits ev) (2 + nesting_room ev) (result st) = Inr doc"
    by (auto simp: try_block_def split: sum.splits)
  from j have n: "first_error (int_max_str_digits ev) (2 + nesting_room ev) (result st) = None"
    and e: "doc = encode (result st)"
    by (auto simp: json_dumps_def split: option.splits)
  from t e m have "stdout (main ev supplied Communicate) = encode (result st) @ [newline]"
    by (simp add: guarded_def)
  with d first_error_bytes_free [OF n] that show thesis by blast
qed

lemma small_int: "\<bar>i\<bar> < 1000000 \<Longrightarrow> \<not> exceeds_digits 4300 i"
proof -
  assume a: "\<bar>i\<bar> < 1000000"
  have "(10::int) ^ 6 \<le> 10 ^ 4300" by (rule power_increasing) simp_all
  moreover have "(10::int) ^ 6 = 1000000" by simp
  ultimately have "1000000 \<le> (10::int) ^ 4300" by (simp only:)
  with a show ?thesis unfolding exceeds_digits_def by linarith
qed

lemma exceeds_huge: "exceeds_digits 4300 huge"
proof -
  have "(0::int) \<le> 10 ^ 4300" by (rule zero_le_power) simp
  then have "\<bar>(10::int) ^ 4300\<bar> = 10 ^ 4300" by (rule abs_of_nonneg)
  then have "(10::int) ^ 4300 \<le> \<bar>10 ^ 4300\<bar>" by (simp only: order_refl)
  moreover have "(4300::nat) \<noteq> 0" by simp
  ultimately show ?thesis unfolding exceeds_digits_def huge_def by (intro conjI)
qed

text \<open>The example run: one audio chunk with the bytes 1 and 2, then one word-boundary chunk.\<close>

lemma parse_hi_args:
  "parse_args hi_args =
     Inr \<lparr>ns_text = ''Hi'', ns_voice = ''en-US-GuyNeural'', ns_rate = ''+0%'', ns_pitch = ''+0Hz''\<rparr>"
  by (simp add: parse_args_def get_default_def hi_args_def)

lemma ev0_limits: "int_max_str_digits ev0 = 4300" "nesting_room ev0 = 900"
  by (simp_all add: ev0_def)

lemma word_chunk_accepted: "first_error 4300 900 (PDict word_chunk) = None"
  by (simp add: word_chunk_def small_int)

lemma long_chunk_refused: "first_error 4300 900 (PDict long_chunk) = Some (digits_error 4300)"
  by (simp add: long_chunk_def exceeds_huge)

lemma drain_example:
  "drain init_accs example_stream = Inr \<lparr>audio_data = [1, 2], boundaries = [word_chunk]\<rparr>"
  by (simp add: example_stream_def init_accs_def loop_body_def getitem_def bytearray_extend_def
      audio_chunk_def word_chunk_def)

lemma b64encode_example: "b64encode [1, 2] = ''AQI=''"
  by code_simp

lemma result_example:
  "result \<lparr>audio_data = [1, 2], boundaries = [word_chunk]\<rparr> =
     PDict [(''audio'', PStr ''AQI=''), (''boundaries'', PList [PDict word_chunk])]"
  by (simp add: result_def b64encode_example del: b64encode.simps)

lemma main_example:
  "main ev0 hi_args (\<lambda>kw. Inr example_stream) =
     \<lparr>stdout = encode (PDict [(''audio'', PStr ''AQI=''), (''boundaries'', PList [PDict word_chunk])])
                 @ [newline],
      stderr = [], exit_code = 0\<rparr>"
proof -
  have b: "boundary_chunks example_stream = [word_chunk]"
    using drain_init [OF drain_example] by simp
  show ?thesis
    unfolding main_drained [where Communicate = "\<lambda>kw. Inr example_stream",
        OF parse_hi_args refl drain_example] b ev0_limits result_example
    by (simp add: word_chunk_accepted del: first_error.simps)
qed

text \<open>
  C1. In every successful run (exit code 0) the text on standard output, without its final
  line feed, is read by the JSON reader as an object whose \<^verbatim>\<open>audio\<close> member is a
  string, and that string base64-decodes to the concatenation, in arrival order, of the
  payloads of the audio chunks the stream produced for the request.
\<close>

theorem audio_roundtrip:
  assumes "parse_args supplied = Inr args"
    and "Communicate (communicate_kwargs args) = Inr ps"
    and "exit_code (main ev supplied Communicate) = 0"
  shows "\<exists>a bs. json_loads (butlast (stdout (main ev supplied Communicate))) =
                   Some (PDict [(''audio'', PStr a), (''boundaries'', bs)]) \<and>
                 b64decode a = Some (audio_payloads ps)"
proof -
  from assms obtain st where d: "drain init_accs ps = Inr st" and s: "bytes_free (result st)"
    and o: "stdout (main ev supplied Communicate) = encode (result st) @ [newline]"
    by (rule success_cases)
  have "json_loads (butlast (stdout (main ev supplied Communicate))) = Some (result st)"
    using json_loads_encode [OF s] o by simp
  moreover have "audio_data st = audio_payloads ps" using drain_init [OF d] by simp
  ultimately show ?thesis
    by (simp add: result_def b64decode_b64encode)
qed

theorem audio_roundtrip_witness:
  "exit_code (main ev0 hi_args (\<lambda>kw. Inr example_stream)) = 0 \<and>
   (\<exists>a bs. json_loads (butlast (stdout (main ev0 hi_args (\<lambda>kw. Inr example_stream)))) =
              Some (PDict [(''audio'', PStr a), (''boundaries'', bs)]) \<and>
            b64decode a = Some (audio_payloads example_stream)) \<and>
   audio_payloads example_stream = [1, 2]"
proof -
  have e: "exit_code (main ev0 hi_args (\<lambda>kw. Inr example_stream)) = 0"
    by (simp add: main_example)
  have "audio_payloads example_stream = [1, 2]"
    using drain_init [OF drain_example] by simp
  with e audio_roundtrip [OF parse_hi_args refl e] show ?thesis by simp
qed

text \<open>
  C2, as stated, fails on the stream of one audio chunk and one word-boundary chunk: the
  entry written for the boundary is the whole chunk, which has the four fields
  \<^verbatim>\<open>type\<close>, \<^verbatim>\<open>offset\<close>, \<^verbatim>\<open>duration\<close> and \<^verbatim>\<open>text\<close>, not exactly the last
  three.
\<close>

theorem boundary_fields_counterexample:
  "exit_code (main ev0 hi_args (\<lambda>kw. Inr example_stream)) = 0 \<and>
   json_loads (butlast (stdout (main ev0 hi_args (\<lambda>kw. Inr example_stream)))) =
     Some (PDict [(''audio'', PStr ''AQI=''), (''boundaries'', PList [PDict word_chunk])]) \<and>
   boundary_chunks example_stream = [word_chunk] \<and>
   map fst word_chunk = [''type'', ''offset'', ''duration'', ''text'']"
proof -
  have s: "bytes_free (PDict [(''audio'', PStr ''AQI=''), (''boundaries'', PList [PDict word_chunk])])"
    by (simp add: word_chunk_def)
  have e: "exit_code (main ev0 hi_args (\<lambda>kw. Inr example_stream)) = 0"
    by (simp add: main_example)
  have j: "json_loads (butlast (stdout (main ev0 hi_args (\<lambda>kw. Inr example_stream)))) =
     Some (PDict [(''audio'', PStr ''AQI=''), (''boundaries'', PList [PDict word_chunk])])"
    unfolding main_example using json_loads_encode [OF s] by (simp del: encode.simps)
  have b: "boundary_chunks example_stream = [word_chunk]"
    using drain_init [OF drain_example] by simp
  have k: "map fst word_chunk = [''type'', ''offset'', ''duration'', ''text'']"
    by (simp add: word_chunk_def)
  from e j b k show ?thesis by blast
qed

text \<open>
  C2, amended. In every successful run the \<^verbatim>\<open>boundaries\<close> member of the document on
  standard output is the list of the word-boundary chunks the stream produced, in arrival
  order, each entry being the chunk as the collaborator yielded it: every field of the
  chunk, its \<^verbatim>\<open>type\<close> included, with its value unmodified.
\<close>

theorem boundaries_preserved:
  assumes "parse_args supplied = Inr args"
    and "Communicate (communicate_kwargs args) = Inr ps"
    and "exit_code (main ev supplied Communicate) = 0"
  shows "\<exists>a. json_loads (butlast (stdout (main ev supplied Communicate))) =
               Some (PDict [(''audio'', a),
                            (''boundaries'', PList (map PDict (boundary_chunks ps)))])"
proof -
  from assms obtain st where d: "drain init_accs ps = Inr st" and s: "bytes_free (result st)"
    and o: "stdout (main ev supplied Communicate) = encode (result st) @ [newline]"
    by (rule success_cases)
  have "json_loads (butlast (stdout (main ev supplied Communicate))) = Some (result st)"
    using json_loads_encode [OF s] o by simp
  moreover have "boundaries st = boundary_chunks ps" using drain_init [OF d] by simp
  ultimately show ?thesis by (simp add: result_def)
qed

theorem boundaries_preserved_witness:
  "exit_code (main ev0 hi_args (\<lambda>kw. Inr (Yield sentence_chunk # example_stream @ [Yield word_chunk]))) = 0 \<and>
   (\<exists>a. json_loads (butlast (stdout (main ev0 hi_args
              (\<lambda>kw. Inr (Yield sentence_chunk # example_stream @ [Yield word_chunk]))))) =
          Some (PDict [(''audio'', a), (''boundaries'', PList [PDict word_chunk, PDict word_chunk])]))"
proof -
  let ?ps = "Yield sentence_chunk # example_stream @ [Yield word_chunk]"
  have d: "drain init_accs ?ps = Inr \<lparr>audio_data = [1, 2], boundaries = [word_chunk, word_chunk]\<rparr>"
    by (simp add: example_stream_def init_accs_def loop_body_def getitem_def bytearray_extend_def
        audio_chunk_def word_chunk_def sentence_chunk_def)
  have b: "boundary_chunks ?ps = [word_chunk, word_chunk]"
    using drain_init [OF d] by simp
  have e: "exit_code (main ev0 hi_args (\<lambda>kw. Inr ?ps)) = 0"
    unfolding main_drained [where Communicate = "\<lambda>kw. Inr ?ps", OF parse_hi_args refl d]
      b ev0_limits
    by (simp add: word_chunk_accepted del: first_error.simps)
  from boundaries_preserved [OF parse_hi_args refl e] e b show ?thesis by simp
qed

lemma drain_long_chunk:
  "drain init_accs [Yield long_chunk] = Inr \<lparr>audio_data = [], boundaries = [long_chunk]\<rparr>"
  by (simp add: init_accs_def loop_body_def getitem_def long_chunk_def)

lemma accepted_result:
  assumes "drain init_accs ps = Inr st"
    and "\<forall>c \<in> set (boundary_chunks ps).
           first_error (int_max_str_digits ev) (nesting_room ev) (PDict c) = None"
  shows "first_some (map (\<lambda>c. first_error (int_max_str_digits ev) (nesting_room ev) (PDict c))
                       (boundary_chunks ps)) = None"
    and "bytes_free (result st)"
proof -
  show n: "first_some (map (\<lambda>c. first_error (int_max_str_digits ev) (nesting_room ev) (PDict c))
                       (boundary_chunks ps)) = None"
    using assms(2) by (simp add: first_some_None del: first_error.simps)
  have b: "boundaries st = boundary_chunks ps" using drain_init [OF assms(1)] by simp
  have "first_error (int_max_str_digits ev) (2 + nesting_room ev) (result st) = None"
    unfolding first_error_result b by (rule n)
  then show "bytes_free (result st)" by (rule first_error_bytes_free)
qed

text \<open>
  C5, as stated, fails on a stream that drains normally but yields a word-boundary chunk
  whose offset is an integer of 4301 digits: under the default limit of 4300 digits
  \<^verbatim>\<open>json.dumps\<close> raises \<^verbatim>\<open>ValueError\<close> inside the \<^verbatim>\<open>try\<close>, nothing is written to
  standard output and the exit code is 1.
\<close>

theorem single_json_line_counterexample:
  "drain init_accs [Yield long_chunk] = Inr \<lparr>audio_data = [], boundaries = [long_chunk]\<rparr> \<and>
   map fst long_chunk = [''type'', ''offset'', ''duration'', ''text''] \<and>
   stdout (main ev0 hi_args (\<lambda>kw. Inr [Yield long_chunk])) = [] \<and>
   stderr (main ev0 hi_args (\<lambda>kw. Inr [Yield long_chunk])) =
     ''Error: '' @ str_exn (digits_error 4300) @ [newline] \<and>
   exit_code (main ev0 hi_args (\<lambda>kw. Inr [Yield long_chunk])) = 1"
proof -
  have b: "boundary_chunks [Yield long_chunk] = [long_chunk]"
    using drain_init [OF drain_long_chunk] by simp
  have m: "main ev0 hi_args (\<lambda>kw. Inr [Yield long_chunk]) =
      \<lparr>stdout = [], stderr = ''Error: '' @ str_exn (digits_error 4300) @ [newline],
       exit_code = 1\<rparr>"
    unfolding main_drained [where Communicate = "\<lambda>kw. Inr [Yield long_chunk]",
        OF parse_hi_args refl drain_long_chunk] b ev0_limits
    by (simp add: long_chunk_refused del: first_error.simps)
  have k: "map fst long_chunk = [''type'', ''offset'', ''duration'', ''text'']"
    by (simp add: long_chunk_def)
  show ?thesis
    unfolding m using drain_long_chunk k by (simp del: drain.simps)
qed

text \<open>
  C5, amended. When the stream drains to normal completion and \<^verbatim>\<open>json.dumps\<close> accepts
  every word-boundary chunk it produced (no value without a JSON form, no integer longer
  than the interpreter's digit limit, no nesting beyond the room its recursion limit
  leaves), standard output is exactly one line, that line is read by the JSON reader as an
  object with exactly the two members \<^verbatim>\<open>audio\<close> (a string) and \<^verbatim>\<open>boundaries\<close> (an
  array), in this order, and the exit code is 0.
\<close>

theorem single_json_line:
  assumes "parse_args supplied = Inr args"
    and "Communicate (communicate_kwargs args) = Inr ps"
    and "drain init_accs ps = Inr st"
    and "\<forall>c \<in> set (boundary_chunks ps).
           first_error (int_max_str_digits ev) (nesting_room ev) (PDict c) = None"
  shows "one_line (stdout (main ev supplied Communicate)) \<and>
         (\<exists>a bs. json_loads (butlast (stdout (main ev supplied Communicate))) =
                    Some (PDict [(''audio'', PStr a), (''boundaries'', PList bs)])) \<and>
         exit_code (main ev supplied Communicate) = 0"
proof -
  note n = accepted_result [OF assms(3,4)]
  have m: "main ev supplied Communicate =
      \<lparr>stdout = encode (result st) @ [newline], stderr = [], exit_code = 0\<rparr>"
    unfolding main_drained [where Communicate = Communicate, OF assms(1-3)] n(1) by simp
  have j: "json_loads (butlast (stdout (main ev supplied Communicate))) = Some (result st)"
    unfolding m using json_loads_encode [OF n(2)] by simp
  have o: "one_line (stdout (main ev supplied Communicate))"
    unfolding m using one_line_encode [of "result st"] by simp
  have e: "exit_code (main ev supplied Communicate) = 0"
    unfolding m by simp
  obtain a bs where "result st = PDict [(''audio'', PStr a), (''boundaries'', PList bs)]"
    by (simp add: result_def)
  with j o e show ?thesis by auto
qed

theorem single_json_line_witness:
  "drain init_accs example_stream = Inr \<lparr>audio_data = [1, 2], boundaries = [word_chunk]\<rparr> \<and>
   boundary_chunks example_stream = [word_chunk] \<and>
   first_error (int_max_str_digits ev0) (nesting_room ev0) (PDict word_chunk) = None \<and>
   one_line (stdout (main ev0 hi_args (\<lambda>kw. Inr example_stream))) \<and>
   (\<exists>a bs. json_loads (butlast (stdout (main ev0 hi_args (\<lambda>kw. Inr example_stream)))) =
              Some (PDict [(''audio'', PStr a), (''boundaries'', PList bs)])) \<and>
   exit_code (main ev0 hi_args (\<lambda>kw. Inr example_stream)) = 0"
proof -
  have b: "boundary_chunks example_stream = [word_chunk]"
    using drain_init [OF drain_example] by simp
  have w: "first_error (int_max_str_digits ev0) (nesting_room ev0) (PDict word_chunk) = None"
    unfolding ev0_limits by (rule word_chunk_accepted)
  have s: "\<forall>c \<in> set (boundary_chunks example_stream).
      first_error (int_max_str_digits ev0) (nesting_room ev0) (PDict c) = None"
    unfolding b using w by (simp del: first_error.simps)
  from single_json_line [where Communicate = "\<lambda>kw. Inr example_stream" and ev = ev0,
      OF parse_hi_args refl drain_example s] drain_example b w
  show ?thesis by blast
qed



end
